theory Spec2Isabelle
  imports Main
begin

section \<open>JavaScript string primitives\<close>

text \<open>
  A JavaScript string is modelled as a \<open>string\<close> (a list of \<open>char\<close>): the model covers
  the strings whose code units are below 256. The primitives below follow the
  ECMAScript definitions of \<open>startsWith\<close>, \<open>endsWith\<close>, \<open>includes\<close>, \<open>substring\<close>,
  \<open>trim\<close>, \<open>split\<close> and \<open>join\<close>.
\<close>

definition startsWith :: "string \<Rightarrow> string \<Rightarrow> bool" where
  "startsWith s p = (take (length p) s = p)"

definition endsWith :: "string \<Rightarrow> string \<Rightarrow> bool" where
  "endsWith s p = (length p \<le> length s \<and> drop (length s - length p) s = p)"

fun includes_str :: "string \<Rightarrow> string \<Rightarrow> bool" where
  "includes_str [] p = (p = [])"
| "includes_str (c # cs) p = (startsWith (c # cs) p \<or> includes_str cs p)"

text \<open>
  \<open>s.substring(a, b)\<close>: both indices are integers, clamped to \<open>[0, length]\<close>, and swapped when the
  first exceeds the second.
\<close>

definition substring :: "string \<Rightarrow> int \<Rightarrow> int \<Rightarrow> string" where
  "substring s a b =
     (let n = int (length s);
          a' = min (max a 0) n;
          b' = min (max b 0) n;
          lo = min a' b';
          hi = max a' b'
      in take (nat hi - nat lo) (drop (nat lo) s))"

text \<open>White space and line terminators removed by \<open>trim\<close> (those below 256).\<close>

definition isWhiteSpace :: "char \<Rightarrow> bool" where
  "isWhiteSpace c = (c \<in> set [CHR 0x09, CHR 0x0A, CHR 0x0B, CHR 0x0C, CHR 0x0D, CHR 0x20, CHR 0xA0])"

definition trim :: "string \<Rightarrow> string" where
  "trim s = rev (dropWhile isWhiteSpace (rev (dropWhile isWhiteSpace s)))"

text \<open>
  \<open>s.split(sep)\<close> for a string separator. \<open>split_str sep acc s\<close> scans \<open>s\<close> from the left, \<open>acc\<close>
  being the piece collected since the last separator. An empty separator splits into single
  code units.
\<close>

function split_str :: "string \<Rightarrow> string \<Rightarrow> string \<Rightarrow> string list" where
  "split_str sep acc [] = [acc]"
| "split_str sep acc (c # cs) =
     (if sep \<noteq> [] \<and> startsWith (c # cs) sep
      then acc # split_str sep [] (drop (length sep) (c # cs))
      else split_str sep (acc @ [c]) cs)"
  by pat_completeness auto
termination
  by (relation "measure (\<lambda>(sep, acc, s). length s)") auto

definition split :: "string \<Rightarrow> string \<Rightarrow> string list" where
  "split s sep = (if sep = [] then map (\<lambda>c. [c]) s else split_str sep [] s)"

text \<open>\<open>s.split(sep, limit)\<close> stops once \<open>limit\<close> pieces are collected.\<close>

definition split_limit :: "string \<Rightarrow> string \<Rightarrow> nat \<Rightarrow> string list" where
  "split_limit s sep lim = take lim (split s sep)"

fun join :: "string list \<Rightarrow> string \<Rightarrow> string" where
  "join [] sep = []"
| "join [x] sep = x"
| "join (x # y # ys) sep = x @ sep @ join (y # ys) sep"

section \<open>Regular expressions of the converter\<close>

text \<open>
  Without the \<open>s\<close> flag, \<open>.\<close> matches every code unit but the line terminators; below 256
  these are the line feed and the carriage return.
\<close>

definition dot :: "char \<Rightarrow> bool" where
  "dot c = (c \<noteq> CHR 0x0A \<and> c \<noteq> CHR 0x0D)"

text \<open>
  Backtracking matcher in continuation style. \<open>greedy n k s\<close> lets a greedy \<open>(.*)\<close> take the first
  \<open>n\<close> code units of \<open>s\<close> and hands the captured text and the rest to the continuation \<open>k\<close>; when
  \<open>k\<close> fails it gives one code unit back and retries.
\<close>

fun greedy :: "nat \<Rightarrow> (string \<Rightarrow> string \<Rightarrow> 'a option) \<Rightarrow> string \<Rightarrow> 'a option" where
  "greedy 0 k s = k [] s"
| "greedy (Suc n) k s =
     (case k (take (Suc n) s) (drop (Suc n) s) of
        Some r \<Rightarrow> Some r
      | None \<Rightarrow> greedy n k s)"

definition dot_star :: "(string \<Rightarrow> string \<Rightarrow> 'a option) \<Rightarrow> string \<Rightarrow> 'a option" where
  "dot_star k s = greedy (length (takeWhile dot s)) k s"

definition lit :: "string \<Rightarrow> (string \<Rightarrow> 'a option) \<Rightarrow> string \<Rightarrow> 'a option" where
  "lit p k s = (if startsWith s p then k (drop (length p) s) else None)"

text \<open>
  \<open>CSS_RULE_REPLACE_PATTERN = /(.*):style\((.*)\)/g\<close>, matched at the start of \<open>s\<close>. The result
  is the match array: the whole match, then the two captured groups.
\<close>

definition CSS_RULE_match_here :: "string \<Rightarrow> string list option" where
  "CSS_RULE_match_here s =
     dot_star (\<lambda>g1. lit '':style('' (dot_star (\<lambda>g2. lit '')''
       (\<lambda>rest. Some [g1 @ '':style('' @ g2 @ '')'', g1, g2])))) s"

text \<open>
  \<open>CSS_RULE_REPLACE_PATTERN.exec(s)\<close> from \<open>lastIndex = 0\<close>: the leftmost start position with a
  match. \<open>s.match(CSS_RULE_REPLACE_PATTERN)\<close> sets \<open>lastIndex\<close> to 0 before and after its scan and
  is non-null exactly when this search succeeds, so the \<open>exec\<close> that follows it in
  \<open>executeConversion\<close> always starts at 0.
\<close>

fun CSS_RULE_exec :: "string \<Rightarrow> string list option" where
  "CSS_RULE_exec [] = CSS_RULE_match_here []"
| "CSS_RULE_exec (c # cs) =
     (case CSS_RULE_match_here (c # cs) of
        Some groups \<Rightarrow> Some groups
      | None \<Rightarrow> CSS_RULE_exec cs)"

text \<open>
  The four option patterns have the shape \<open>/([\$,])token/i\<close> with an ASCII token, and their
  replacements the shape \<open>$1text\<close>. Under the \<open>i\<close> flag two code units match when their
  canonical (upper-case) forms agree; a code unit outside ASCII never canonicalises to an
  ASCII one, so only the ASCII letters need a mapping here.
\<close>

record option_regex =
  token :: string
  replacement :: string

definition FIRST_PARTY_REGEX :: option_regex where
  "FIRST_PARTY_REGEX = \<lparr>token = ''first-party'', replacement = ''~third-party''\<rparr>"

definition XHR_REGEX :: option_regex where
  "XHR_REGEX = \<lparr>token = ''xhr'', replacement = ''xmlhttprequest''\<rparr>"

definition CSS_REGEX :: option_regex where
  "CSS_REGEX = \<lparr>token = ''css'', replacement = ''stylesheet''\<rparr>"

definition FRAME_REGEX :: option_regex where
  "FRAME_REGEX = \<lparr>token = ''frame'', replacement = ''subdocument''\<rparr>"

definition canonicalize :: "char \<Rightarrow> char" where
  "canonicalize c =
     (case map_of (zip ''abcdefghijklmnopqrstuvwxyz'' ''ABCDEFGHIJKLMNOPQRSTUVWXYZ'') c of
        Some u \<Rightarrow> u
      | None \<Rightarrow> c)"

definition delimiter :: "char \<Rightarrow> bool" where
  "delimiter c = (c = CHR ''$'' \<or> c = CHR '','')"

text \<open>The pattern matched at the start of \<open>s\<close>: a delimiter, then the token in any case.\<close>

definition option_match_here :: "option_regex \<Rightarrow> string \<Rightarrow> bool" where
  "option_match_here re s =
     (case s of
        [] \<Rightarrow> False
      | d # r \<Rightarrow> delimiter d \<and> length (token re) \<le> length r \<and>
          map canonicalize (take (length (token re)) r) = map canonicalize (token re))"

text \<open>\<open>re.test(s)\<close>: the pattern matches somewhere in \<open>s\<close> (no \<open>g\<close> flag, so no state).\<close>

fun regex_test :: "option_regex \<Rightarrow> string \<Rightarrow> bool" where
  "regex_test re [] = False"
| "regex_test re (c # cs) = (option_match_here re (c # cs) \<or> regex_test re cs)"

text \<open>
  \<open>s.replace(re, replacement)\<close> without the \<open>g\<close> flag: the leftmost match is replaced by the
  captured delimiter (\<open>$1\<close>) followed by the replacement text; the rest of \<open>s\<close> is copied.
\<close>

fun regex_replace :: "option_regex \<Rightarrow> string \<Rightarrow> string" where
  "regex_replace re [] = []"
| "regex_replace re (c # cs) =
     (if option_match_here re (c # cs)
      then c # replacement re @ drop (length (token re)) cs
      else c # regex_replace re cs)"

section \<open>The rule mask registry\<close>

text \<open>
  The converter reads eight markers from \<open>RuleMasks\<close> (\<open>rule/rule-masks.js\<close>). The functions
  below take the registry as a parameter.
\<close>

record rule_masks =
  MASK_ELEMENT_HIDING :: string
  MASK_ELEMENT_HIDING_EXCEPTION :: string
  MASK_CSS :: string
  MASK_CSS_EXCEPTION :: string
  MASK_CSS_EXTENDED_CSS_RULE :: string
  MASK_CSS_EXCEPTION_EXTENDED_CSS_RULE :: string
  MASK_CSS_INJECT_EXTENDED_CSS_RULE :: string
  MASK_CSS_EXCEPTION_INJECT_EXTENDED_CSS_RULE :: string

text \<open>
  Modelled from the spec: the values of the markers, since \<open>rule/rule-masks.js\<close> is not among the
  sources. The element-hiding markers and their outputs are those of the examples in the
  documentation of \<open>convert\<close> (\<open>example.com##h1:style(...)\<close> becomes \<open>example.com#$#h1 { ... }\<close>,
  and \<open>#@#\<close> becomes \<open>#@$#\<close>); the extended-CSS markers are the \<open>?\<close> variants of the same
  filter syntax.
\<close>

definition RuleMasks :: rule_masks where
  "RuleMasks =
     \<lparr>MASK_ELEMENT_HIDING = ''##'',
      MASK_ELEMENT_HIDING_EXCEPTION = ''#@#'',
      MASK_CSS = ''#$#'',
      MASK_CSS_EXCEPTION = ''#@$#'',
      MASK_CSS_EXTENDED_CSS_RULE = ''#?#'',
      MASK_CSS_EXCEPTION_EXTENDED_CSS_RULE = ''#@?#'',
      MASK_CSS_INJECT_EXTENDED_CSS_RULE = ''#$?#'',
      MASK_CSS_EXCEPTION_INJECT_EXTENDED_CSS_RULE = ''#@$?#''\<rparr>"

section \<open>The rule converter (converter.js)\<close>

text \<open>
  Exceptions are values. The logger is a list of entries, extended at the end; the optional
  \<open>excluded\<close> array is a list when given, \<open>None\<close> when omitted.
\<close>

datatype error = TypeError | SyntaxError | Error string

datatype log_entry = Log string | Warn string

type_synonym logger = "log_entry list"

type_synonym excluded_sink = "string list option"

text \<open>
  \<open>executeConversion(rule, parts, ruleMark, excluded)\<close>. \<open>parts[0]\<close> is falsy when missing or
  empty; reading \<open>parts[1].match\<close> of a missing part throws \<open>TypeError\<close>.
\<close>

definition executeConversion ::
  "string \<Rightarrow> string list \<Rightarrow> string \<Rightarrow> excluded_sink \<Rightarrow> logger
     \<Rightarrow> error + (string \<times> excluded_sink \<times> logger)" where
  "executeConversion rule parts ruleMark excluded lg =
     (case parts of
        [] \<Rightarrow> Inr (rule, excluded, lg)
      | domain # rest \<Rightarrow>
          if domain = [] then Inr (rule, excluded, lg)
          else (case rest of
                  [] \<Rightarrow> Inl TypeError
                | rulePart # _ \<Rightarrow>
                    (case CSS_RULE_exec rulePart of
                       None \<Rightarrow> Inr (rule, excluded, lg)
                     | Some groups \<Rightarrow>
                         if length groups \<noteq> 3
                         then Inr (rule, excluded, lg @ [Warn (''Cannot convert '' @ rule)])
                         else
                           let result = domain @ ruleMark @ groups ! 1 @ '' { '' @ groups ! 2 @ '' }'';
                               message = ''Rule '' @ [CHR 0x22] @ rule @ [CHR 0x22]
                                           @ '' converted to: '' @ result
                           in Inr (result,
                                   map_option (\<lambda>ex. ex @ [''! '' @ message, rule]) excluded,
                                   lg @ [Log message]))))"

text \<open>
  The first block of the loop body of \<open>convert\<close> (lines 92 to 107): the CSS injection
  conversion, with the masks tried in the order of the source.
\<close>

definition convert_style ::
  "rule_masks \<Rightarrow> string \<Rightarrow> excluded_sink \<Rightarrow> logger
     \<Rightarrow> error + (string \<times> excluded_sink \<times> logger)" where
  "convert_style rm rule excluded lg =
     (if includes_str rule '':style'' then
        if includes_str rule (MASK_CSS_EXTENDED_CSS_RULE rm) then
          executeConversion rule (split_limit rule (MASK_CSS_EXTENDED_CSS_RULE rm) 2)
            (MASK_CSS_INJECT_EXTENDED_CSS_RULE rm) excluded lg
        else if includes_str rule (MASK_CSS_EXCEPTION_EXTENDED_CSS_RULE rm) then
          executeConversion rule (split_limit rule (MASK_CSS_EXCEPTION_EXTENDED_CSS_RULE rm) 2)
            (MASK_CSS_EXCEPTION_INJECT_EXTENDED_CSS_RULE rm) excluded lg
        else if includes_str rule (MASK_ELEMENT_HIDING rm) then
          executeConversion rule (split_limit rule (MASK_ELEMENT_HIDING rm) 2)
            (MASK_CSS rm) excluded lg
        else if includes_str rule (MASK_ELEMENT_HIDING_EXCEPTION rm) then
          executeConversion rule (split_limit rule (MASK_ELEMENT_HIDING_EXCEPTION rm) 2)
            (MASK_CSS_EXCEPTION rm) excluded lg
        else Inr (rule, excluded, lg)
      else Inr (rule, excluded, lg))"

text \<open>
  The second block (lines 110 to 121): the option rewrites. The message interpolates the
  \<open>result\<close> array collected so far, which prints as its elements joined by commas.
\<close>

definition convert_options :: "string list \<Rightarrow> string \<Rightarrow> logger \<Rightarrow> string \<times> logger" where
  "convert_options result rule lg =
     (if regex_test FIRST_PARTY_REGEX rule \<or> regex_test XHR_REGEX rule \<or>
         regex_test CSS_REGEX rule \<or> regex_test FRAME_REGEX rule
      then
        let replacedRule =
              regex_replace FRAME_REGEX (regex_replace CSS_REGEX
                (regex_replace XHR_REGEX (regex_replace FIRST_PARTY_REGEX rule)));
            message = ''Rule '' @ [CHR 0x22] @ rule @ [CHR 0x22]
                        @ '' converted to: '' @ join result '',''
        in (replacedRule, lg @ [Log message])
      else (rule, lg))"

fun convert_loop ::
  "rule_masks \<Rightarrow> string list \<Rightarrow> string list \<Rightarrow> excluded_sink \<Rightarrow> logger
     \<Rightarrow> error + (string list \<times> excluded_sink \<times> logger)" where
  "convert_loop rm [] result excluded lg = Inr (result, excluded, lg)"
| "convert_loop rm (rule # rulesList) result excluded lg =
     (case convert_style rm rule excluded lg of
        Inl e \<Rightarrow> Inl e
      | Inr (rule1, excluded1, lg1) \<Rightarrow>
          (case convert_options result rule1 lg1 of
             (rule2, lg2) \<Rightarrow> convert_loop rm rulesList (result @ [rule2]) excluded1 lg2))"

text \<open>
  \<open>convert(rulesList, excluded)\<close>: the returned array, the \<open>excluded\<close> array after the call and the
  logger after the call.
\<close>

definition convert ::
  "rule_masks \<Rightarrow> string list \<Rightarrow> excluded_sink \<Rightarrow> logger
     \<Rightarrow> error + (string list \<times> excluded_sink \<times> logger)" where
  "convert rm rulesList excluded lg = convert_loop rm rulesList [] excluded lg"

section \<open>The compiler (the second module of converter.js)\<close>

text \<open>
  The files are a map from paths to contents, passed explicitly and returned by the functions
  that write. Everything the module only calls is a field of the environment: \<open>path.join\<close>, the
  download, the \<open>RegExp\<close> constructor followed by \<open>line.match\<close> (\<open>None\<close> when the constructor
  throws), the validator, the sorter, \<open>utils.removeDuplicates\<close>, \<open>version.increment\<close>, the
  directory listing, the clock and the JSON functions. \<open>JSON_version\<close> stands for
  \<open>JSON.parse(current)\<close> followed by \<open>p && p.version\<close> (\<open>Inr None\<close> when that is falsy),
  \<open>JSON_metadata\<close> for \<open>JSON.parse(metadataString)\<close> followed by the texts of \<open>name\<close>,
  \<open>description\<close> and \<open>expires\<close>; both are \<open>Inl\<close> when the code throws. The module-level
  \<open>currentDir\<close> is passed as a parameter. Calls of the logger are left out of this module.
  The functions of the environment, \<open>writeFileSync\<close> and \<open>lstatSync\<close> are taken to return:
  the exceptions of the model are those the two modules raise themselves, the ones of
  reading a missing array element, and the ones of \<open>RegExp\<close> and \<open>JSON.parse\<close>.
\<close>

type_synonym files = "string \<rightharpoonup> string"

record env =
  masks :: rule_masks
  path_join :: "string \<Rightarrow> string \<Rightarrow> string"
  downloadFileSync :: "string \<Rightarrow> string"
  RegExp :: "string \<Rightarrow> (string \<Rightarrow> bool) option"
  utils_removeDuplicates :: "string list \<Rightarrow> string list"
  validator_validate :: "string list \<Rightarrow> string list"
  validator_blacklistDomains :: "string list \<Rightarrow> string list"
  sorter_sort :: "string list \<Rightarrow> string list"
  version_increment :: "string \<Rightarrow> string"
  fs_readdirSync :: "string \<Rightarrow> string list"
  fs_isDirectory :: "string \<Rightarrow> bool"
  getTime :: int
  toDateString :: "int \<Rightarrow> string"
  JSON_version :: "string \<Rightarrow> error + string option"
  JSON_metadata :: "string \<Rightarrow> error + (string \<times> string \<times> string)"
  JSON_stringify :: "string \<Rightarrow> int \<Rightarrow> string"

definition TEMPLATE_FILE :: string where "TEMPLATE_FILE = ''template.txt''"
definition FILTER_FILE :: string where "FILTER_FILE = ''filter.txt''"
definition REVISION_FILE :: string where "REVISION_FILE = ''revision.json''"
definition METADATA_FILE :: string where "METADATA_FILE = ''metadata.json''"
definition EXCLUDE_FILE :: string where "EXCLUDE_FILE = ''exclude.txt''"

text \<open>\<open>readFile\<close> returns the content, or \<open>null\<close> (here \<open>None\<close>) when the read fails.\<close>

definition readFile :: "files \<Rightarrow> string \<Rightarrow> string option" where
  "readFile fs path = fs path"

definition writeFile :: "files \<Rightarrow> string \<Rightarrow> string \<Rightarrow> files" where
  "writeFile fs path data = fs(path \<mapsto> data)"

text \<open>
  The test \<open>!x\<close> on a value that is \<open>null\<close> or a string holds for \<open>null\<close> and for the empty
  string; \<open>truthy\<close> maps both to \<open>None\<close> and keeps every other string.
\<close>

definition truthy :: "string option \<Rightarrow> string option" where
  "truthy x = (case x of None \<Rightarrow> None | Some s \<Rightarrow> if s = [] then None else Some s)"

definition isLineBreak :: "char \<Rightarrow> bool" where
  "isLineBreak c = (c = CHR 0x0D \<or> c = CHR 0x0A)"

text \<open>\<open>string.split(/[\r\n]+/)\<close>: \<open>acc\<close> is the line collected since the last run of breaks.\<close>

function splitLines_from :: "string \<Rightarrow> string \<Rightarrow> string list" where
  "splitLines_from acc [] = [acc]"
| "splitLines_from acc (c # cs) =
     (if isLineBreak c then acc # splitLines_from [] (dropWhile isLineBreak cs)
      else splitLines_from (acc @ [c]) cs)"
  by pat_completeness auto
termination
  by (relation "measure (\<lambda>(acc, s). length s)")
     (auto simp: length_dropWhile_le less_Suc_eq_le)

definition splitLines :: "string \<Rightarrow> string list" where
  "splitLines string = splitLines_from [] string"

definition stripComments :: "string list \<Rightarrow> string list" where
  "stripComments lines = filter (\<lambda>line. \<not> startsWith line ''!'') lines"

text \<open>
  \<open>isExcluded(line, exclusions)\<close>: the loop returns at the first entry that matches; an entry
  whose pattern the \<open>RegExp\<close> constructor rejects throws \<open>SyntaxError\<close> when it is reached.
\<close>

fun isExcluded :: "env \<Rightarrow> string \<Rightarrow> string list \<Rightarrow> error + bool" where
  "isExcluded env line [] = Inr False"
| "isExcluded env line (exclusion0 # exclusions) =
     (let exclusion = trim exclusion0 in
      if \<not> startsWith exclusion ''!'' then
        if startsWith exclusion ''/'' \<and> endsWith exclusion ''/'' then
          (case RegExp env (substring exclusion 1 (int (length exclusion) - 2)) of
             None \<Rightarrow> Inl SyntaxError
           | Some matches \<Rightarrow>
               if matches line then Inr True else isExcluded env line exclusions)
        else if includes_str line exclusion then Inr True
        else isExcluded env line exclusions
      else isExcluded env line exclusions)"

text \<open>\<open>lines.filter((line) => !isExcluded(line, exclusions))\<close>, stopped by the first throw.\<close>

fun filter_excluded :: "env \<Rightarrow> string list \<Rightarrow> string list \<Rightarrow> error + string list" where
  "filter_excluded env exclusions [] = Inr []"
| "filter_excluded env exclusions (line # lines) =
     (case isExcluded env line exclusions of
        Inl e \<Rightarrow> Inl e
      | Inr ex \<Rightarrow>
          (case filter_excluded env exclusions lines of
             Inl e \<Rightarrow> Inl e
           | Inr result \<Rightarrow> Inr (if ex then result else line # result)))"

definition exclude ::
  "env \<Rightarrow> files \<Rightarrow> string \<Rightarrow> string list \<Rightarrow> string \<Rightarrow> error + string list" where
  "exclude env fs currentDir lines exclusionsFileName =
     (let exclusionsFile = path_join env currentDir exclusionsFileName
      in case truthy (readFile fs exclusionsFile) of
           None \<Rightarrow> Inr lines
         | Some exclusions \<Rightarrow> filter_excluded env (splitLines exclusions) lines)"

text \<open>\<open>s.charAt(i)\<close>: the empty string when \<open>i\<close> is out of range.\<close>

definition charAt :: "string \<Rightarrow> int \<Rightarrow> string" where
  "charAt s i = (if 0 \<le> i \<and> i < int (length s) then [s ! nat i] else [])"

text \<open>
  \<open>stripEndQuotes(s)\<close>. The first test passes the old \<open>t\<close> to \<open>substring\<close> and then decrements
  it; the second decrements \<open>t\<close> before reading \<open>charAt\<close>.
\<close>

definition stripEndQuotes :: "string \<Rightarrow> string" where
  "stripEndQuotes s0 =
     (let t0 = int (length s0);
          (s1, t1) = (if charAt s0 0 = [CHR 0x22] then (substring s0 1 t0, t0 - 1) else (s0, t0));
          t2 = t1 - 1
      in if charAt s1 t2 = [CHR 0x22] then substring s1 0 t2 else s1)"

text \<open>\<open>s.indexOf(c)\<close> for a one-character \<open>c\<close>: \<open>-1\<close> when absent.\<close>

fun indexOf :: "string \<Rightarrow> char \<Rightarrow> int" where
  "indexOf [] c = - 1"
| "indexOf (x # xs) c =
     (if x = c then 0 else (let i = indexOf xs c in if i < 0 then - 1 else i + 1))"

record include_options =
  url :: string
  opt_stripComments :: bool
  opt_exclude :: "string option"

text \<open>The loop of \<open>parseIncludeLine\<close> over \<open>parts[1]\<close>, \<open>parts[2]\<close>, ... with its two variables.\<close>

fun parse_attributes :: "string list \<Rightarrow> bool \<Rightarrow> string option \<Rightarrow> bool \<times> string option" where
  "parse_attributes [] sc ex = (sc, ex)"
| "parse_attributes (part # parts) sc ex =
     (let attribute = trim part in
      if startsWith attribute ''/stripComments'' then parse_attributes parts True ex
      else if startsWith attribute ''/exclude='' then
        parse_attributes parts sc
          (Some (stripEndQuotes
             (substring attribute (indexOf attribute (CHR ''='') + 1) (int (length attribute)))))
      else parse_attributes parts sc ex)"

text \<open>\<open>parseIncludeLine(line)\<close>: \<open>parts[1].trim()\<close> throws \<open>TypeError\<close> when the line has no blank.\<close>

definition parseIncludeLine :: "string \<Rightarrow> error + include_options" where
  "parseIncludeLine line =
     (case split line '' '' of
        p0 # p1 # rest \<Rightarrow>
          (let url0 = stripEndQuotes (trim p1);
               (sc, ex) = parse_attributes (p1 # rest) False None
           in Inr \<lparr>url = url0, opt_stripComments = sc, opt_exclude = ex\<rparr>)
      | _ \<Rightarrow> Inl TypeError)"

text \<open>
  \<open>include(line)\<close>. The converter is called without the \<open>excluded\<close> array; its log entries go
  to the logger and are dropped here.
\<close>

definition include_line :: "env \<Rightarrow> files \<Rightarrow> string \<Rightarrow> string \<Rightarrow> error + string list" where
  "include_line env fs currentDir line =
     (case parseIncludeLine line of
        Inl e \<Rightarrow> Inl e
      | Inr options \<Rightarrow>
          if url options = [] then Inr []
          else
            let included =
                  (if includes_str (url options) '':'' then Some (downloadFileSync env (url options))
                   else readFile fs (path_join env currentDir (url options)));
                result1 =
                  (case truthy included of
                     None \<Rightarrow> Inr []
                   | Some content \<Rightarrow>
                       (case (case truthy (opt_exclude options) of
                                None \<Rightarrow> Inr (splitLines content)
                              | Some name \<Rightarrow> exclude env fs currentDir (splitLines content) name) of
                          Inl e \<Rightarrow> Inl e
                        | Inr result0 \<Rightarrow>
                            Inr (if opt_stripComments options then stripComments result0
                                 else result0)))
            in case result1 of
                 Inl e \<Rightarrow> Inl e
               | Inr result \<Rightarrow>
                   (case convert (masks env) result None [] of
                      Inl e \<Rightarrow> Inl e
                    | Inr (converted, _, _) \<Rightarrow> Inr converted))"

text \<open>The loop of \<open>compile\<close> over the lines of the template (lines 380 to 392).\<close>

fun compile_lines ::
  "env \<Rightarrow> files \<Rightarrow> string \<Rightarrow> string list \<Rightarrow> string list \<Rightarrow> error + string list" where
  "compile_lines env fs currentDir [] result = Inr result"
| "compile_lines env fs currentDir (line # lines) result =
     (if startsWith line ''@include '' then
        (case include_line env fs currentDir (trim line) of
           Inl e \<Rightarrow> Inl e
         | Inr inc \<Rightarrow> compile_lines env fs currentDir lines (result @ map trim inc))
      else compile_lines env fs currentDir lines (result @ [trim line]))"

definition compile :: "env \<Rightarrow> files \<Rightarrow> string \<Rightarrow> string \<Rightarrow> error + string list" where
  "compile env fs currentDir template =
     (case compile_lines env fs currentDir (splitLines template) [] of
        Inl e \<Rightarrow> Inl e
      | Inr result0 \<Rightarrow>
          (case exclude env fs currentDir result0 EXCLUDE_FILE of
             Inl e \<Rightarrow> Inl e
           | Inr result1 \<Rightarrow>
               Inr (sorter_sort env (validator_blacklistDomains env
                      (validator_validate env (utils_removeDuplicates env result1))))))"

record revision =
  version :: string
  timeUpdated :: int

definition makeRevision :: "env \<Rightarrow> files \<Rightarrow> string \<Rightarrow> error + revision" where
  "makeRevision env fs path =
     (let result = \<lparr>version = ''1.0.0.0'', timeUpdated = getTime env\<rparr>
      in case truthy (readFile fs path) of
           None \<Rightarrow> Inr result
         | Some current \<Rightarrow>
             (case JSON_version env current of
                Inl e \<Rightarrow> Inl e
              | Inr None \<Rightarrow> Inr result
              | Inr (Some v) \<Rightarrow> Inr (result\<lparr>version := version_increment env v\<rparr>)))"

definition makeHeader :: "env \<Rightarrow> files \<Rightarrow> string \<Rightarrow> revision \<Rightarrow> error + string list" where
  "makeHeader env fs metadataFile revision =
     (case truthy (readFile fs metadataFile) of
        None \<Rightarrow> Inl (Error ''Error reading metadata'')
      | Some metadataString \<Rightarrow>
          (case JSON_metadata env metadataString of
             Inl e \<Rightarrow> Inl e
           | Inr (name, description, expires) \<Rightarrow>
               Inr [''! Title: '' @ name,
                    ''! Description: '' @ description,
                    ''! Version: '' @ version revision,
                    ''! TimeUpdated: '' @ toDateString env (timeUpdated revision),
                    ''! Expires: '' @ expires @ '' (update frequency)'']))"

text \<open>
  \<open>buildFilter(filterDir)\<close> returns the files after the call and the exception it threw, if any.
\<close>

definition buildFilter :: "env \<Rightarrow> files \<Rightarrow> string \<Rightarrow> files \<times> error option" where
  "buildFilter env fs filterDir =
     (case truthy (readFile fs (path_join env filterDir TEMPLATE_FILE)) of
        None \<Rightarrow> (fs, Some (Error ''Invalid template''))
      | Some template \<Rightarrow>
          (let revisionFile = path_join env filterDir REVISION_FILE in
           case makeRevision env fs revisionFile of
             Inl e \<Rightarrow> (fs, Some e)
           | Inr revision \<Rightarrow>
               (case compile env fs filterDir template of
                  Inl e \<Rightarrow> (fs, Some e)
                | Inr compiled \<Rightarrow>
                    (case makeHeader env fs (path_join env filterDir METADATA_FILE) revision of
                       Inl e \<Rightarrow> (fs, Some e)
                     | Inr header \<Rightarrow>
                         (let filter = header @ compiled;
                              fs1 = writeFile fs (path_join env filterDir FILTER_FILE)
                                      (join filter [CHR 0x0D, CHR 0x0A]);
                              fs2 = writeFile fs1 revisionFile
                                      (JSON_stringify env (version revision) (timeUpdated revision))
                          in (fs2, None))))))"

text \<open>The loop of \<open>build\<close> over the entries of the root directory: no exception is caught.\<close>

fun build_items :: "env \<Rightarrow> files \<Rightarrow> string \<Rightarrow> string list \<Rightarrow> files \<times> error option" where
  "build_items env fs filtersDir [] = (fs, None)"
| "build_items env fs filtersDir (directory # items) =
     (let filterDir = path_join env filtersDir directory in
      if fs_isDirectory env filterDir then
        (case buildFilter env fs filterDir of
           (fs1, Some e) \<Rightarrow> (fs1, Some e)
         | (fs1, None) \<Rightarrow> build_items env fs1 filtersDir items)
      else build_items env fs filtersDir items)"

definition build :: "env \<Rightarrow> files \<Rightarrow> string \<Rightarrow> files \<times> error option" where
  "build env fs filtersDir = build_items env fs filtersDir (fs_readdirSync env filtersDir)"

section \<open>Notions used to state the properties\<close>

text \<open>
  The rule that \<open>convert\<close> puts in the place of \<open>rule\<close>: the two blocks of the loop body, run
  without an \<open>excluded\<close> array and with an empty logger.
\<close>

definition converted_rule :: "rule_masks \<Rightarrow> string \<Rightarrow> string" where
  "converted_rule rm rule =
     (case convert_style rm rule None [] of
        Inl e \<Rightarrow> rule
      | Inr (rule1, _, _) \<Rightarrow> fst (convert_options [] rule1 []))"

text \<open>
  The marker that \<open>convert\<close> acts on, with the marker it writes: the first of the four, in the
  order of the source, that occurs in the rule.
\<close>

definition matched_mask :: "rule_masks \<Rightarrow> string \<Rightarrow> (string \<times> string) option" where
  "matched_mask rm rule =
     (if includes_str rule (MASK_CSS_EXTENDED_CSS_RULE rm)
        then Some (MASK_CSS_EXTENDED_CSS_RULE rm, MASK_CSS_INJECT_EXTENDED_CSS_RULE rm)
      else if includes_str rule (MASK_CSS_EXCEPTION_EXTENDED_CSS_RULE rm)
        then Some (MASK_CSS_EXCEPTION_EXTENDED_CSS_RULE rm, MASK_CSS_EXCEPTION_INJECT_EXTENDED_CSS_RULE rm)
      else if includes_str rule (MASK_ELEMENT_HIDING rm)
        then Some (MASK_ELEMENT_HIDING rm, MASK_CSS rm)
      else if includes_str rule (MASK_ELEMENT_HIDING_EXCEPTION rm)
        then Some (MASK_ELEMENT_HIDING_EXCEPTION rm, MASK_CSS_EXCEPTION rm)
      else None)"

text \<open>
  The CSS injection pattern applies to the rule: the rule holds \<open>:style\<close> and one of the
  markers, the text before the marker is not empty, and the text after it (up to the next
  occurrence of the marker) has a match of \<open>(.*):style\((.*)\)\<close>.
\<close>

definition style_pattern_matches :: "rule_masks \<Rightarrow> string \<Rightarrow> bool" where
  "style_pattern_matches rm rule =
     (includes_str rule '':style'' \<and>
      (case matched_mask rm rule of
         None \<Rightarrow> False
       | Some (detect, ruleMark) \<Rightarrow>
           (case split_limit rule detect 2 of
              domain # rulePart # _ \<Rightarrow> domain \<noteq> [] \<and> CSS_RULE_exec rulePart \<noteq> None
            | _ \<Rightarrow> False)))"

text \<open>
  The rule matches none of the conversion patterns: the CSS injection pattern does not apply
  to it, and none of the four option patterns is found in it.
\<close>

definition matches_no_pattern :: "rule_masks \<Rightarrow> string \<Rightarrow> bool" where
  "matches_no_pattern rm rule =
     (\<not> style_pattern_matches rm rule \<and>
      \<not> regex_test FIRST_PARTY_REGEX rule \<and> \<not> regex_test XHR_REGEX rule \<and>
      \<not> regex_test CSS_REGEX rule \<and> \<not> regex_test FRAME_REGEX rule)"

text \<open>The rule after the first block of the loop body, the CSS injection conversion.\<close>

definition style_converted :: "rule_masks \<Rightarrow> string \<Rightarrow> string" where
  "style_converted rm rule =
     (case convert_style rm rule None [] of
        Inl e \<Rightarrow> rule
      | Inr (rule1, _, _) \<Rightarrow> rule1)"

text \<open>The entry was written by \<open>logger.warn\<close>.\<close>

definition is_Warn :: "log_entry \<Rightarrow> bool" where
  "is_Warn e = (case e of Warn m \<Rightarrow> True | Log m \<Rightarrow> False)"

text \<open>
  A fatal condition of the build of one directory: the template is missing or empty, or the
  metadata is missing, empty or rejected by the JSON functions.
\<close>

definition fatal_condition :: "env \<Rightarrow> files \<Rightarrow> string \<Rightarrow> bool" where
  "fatal_condition env fs filterDir =
     (case truthy (readFile fs (path_join env filterDir TEMPLATE_FILE)) of
        None \<Rightarrow> True
      | Some template \<Rightarrow>
          (case truthy (readFile fs (path_join env filterDir METADATA_FILE)) of
             None \<Rightarrow> True
           | Some metadataString \<Rightarrow> isl (JSON_metadata env metadataString)))"

text \<open>
  A small environment and a small file tree on which the properties are evaluated. The root
  has the directories \<open>a\<close>, which is empty, and \<open>b\<close>, which holds a template, a fragment
  and the metadata. The patterns used hold no special character, so matching one is
  substring search; the validator and the sorter return their input; the JSON functions know
  the text \<open>{}\<close> only, an object without fields.
\<close>

definition sample_env :: env where
  "sample_env =
     \<lparr>masks = RuleMasks,
      path_join = (\<lambda>a b. a @ ''/'' @ b),
      downloadFileSync = (\<lambda>u. []),
      RegExp = (\<lambda>pattern. Some (\<lambda>line. includes_str line pattern)),
      utils_removeDuplicates = (\<lambda>lines. rev (remdups (rev lines))),
      validator_validate = (\<lambda>lines. lines),
      validator_blacklistDomains = (\<lambda>lines. lines),
      sorter_sort = (\<lambda>lines. lines),
      version_increment = (\<lambda>v. v @ ''.1''),
      fs_readdirSync = (\<lambda>dir. if dir = ''root'' then [''a'', ''b''] else []),
      fs_isDirectory = (\<lambda>p. p = ''root/a'' \<or> p = ''root/b''),
      getTime = 0,
      toDateString = (\<lambda>t. ''Thu Jan 01 1970''),
      JSON_version = (\<lambda>text. if text = ''{}'' then Inr None else Inl SyntaxError),
      JSON_metadata = (\<lambda>text. if text = ''{}'' then Inr (''undefined'', ''undefined'', ''undefined'')
                              else Inl SyntaxError),
      JSON_stringify = (\<lambda>v t. v)\<rparr>"

definition sample_files :: files where
  "sample_files =
     [''root/b/template.txt'' \<mapsto> ''||ads.example^'' @ [CHR 0x0A] @ '' @include extra.txt'' @ [CHR 0x0A] @ ''@include extra.txt'',
      ''root/b/extra.txt'' \<mapsto> ''||tracker.example^$xhr'' @ [CHR 0x0A] @ ''! comment'',
      ''root/b/metadata.json'' \<mapsto> ''{}'']"

section \<open>Properties\<close>

subsection \<open>Strings and patterns\<close>

lemma startsWith_length: "startsWith s p \<Longrightarrow> length p \<le> length s"
proof -
  assume "startsWith s p"
  then have "length (take (length p) s) = length p" by (simp add: startsWith_def)
  then show ?thesis by simp
qed

lemma includes_str_length: "includes_str s p \<Longrightarrow> length p \<le> length s"
  by (induction s) (auto dest: startsWith_length)

lemma split_str_nonempty: "split_str sep acc s \<noteq> []"
  by (induction sep acc s rule: split_str.induct) auto

lemma split_str_two:
  "sep \<noteq> [] \<Longrightarrow> includes_str s sep \<Longrightarrow> 2 \<le> length (split_str sep acc s)"
proof (induction sep acc s rule: split_str.induct)
  case (1 sep acc)
  then show ?case by simp
next
  case (2 sep acc c cs)
  show ?case
  proof (cases "startsWith (c # cs) sep")
    case True
    have "1 \<le> length (split_str sep [] (drop (length sep) (c # cs)))"
      using split_str_nonempty [of sep "[]" "drop (length sep) (c # cs)"]
      by (simp add: Suc_le_eq)
    with True "2.prems" show ?thesis by simp
  next
    case False
    with "2.prems" have "includes_str cs sep" by simp
    with False "2.prems" "2.IH"(2) show ?thesis by simp
  qed
qed

lemma split_limit_two:
  assumes "includes_str s sep" and "2 \<le> length s"
  shows "length (split_limit s sep 2) = 2"
proof (cases "sep = []")
  case True
  with assms show ?thesis by (simp add: split_limit_def split_def)
next
  case False
  with assms split_str_two [of sep s "[]"] show ?thesis
    by (simp add: split_limit_def split_def)
qed

lemma greedy_groups:
  "greedy n (\<lambda>g rest. k g rest) s = Some r \<Longrightarrow> \<exists>g rest. k g rest = Some r"
  by (induction n) (auto split: option.splits)

lemma CSS_RULE_match_here_length:
  "CSS_RULE_match_here s = Some groups \<Longrightarrow> length groups = 3"
  unfolding CSS_RULE_match_here_def dot_star_def lit_def
  by (auto dest!: greedy_groups split: if_splits)

lemma CSS_RULE_exec_length: "CSS_RULE_exec s = Some groups \<Longrightarrow> length groups = 3"
  by (induction s) (auto split: option.splits dest: CSS_RULE_match_here_length)

lemma executeConversion_returns:
  "length parts = 2 \<Longrightarrow> \<exists>r ex' lg'. executeConversion rule parts mark ex lg = Inr (r, ex', lg')"
  by (cases parts; cases "tl parts")
     (auto simp: executeConversion_def Let_def split: option.splits)

lemma option_match_here_append:
  "length (token re) < length u \<Longrightarrow> option_match_here re (u @ v) = option_match_here re u"
  by (cases u) (auto simp: option_match_here_def)

lemma regex_replace_no_match: "\<not> regex_test re s \<Longrightarrow> regex_replace re s = s"
  by (induction s) auto

lemma regex_replace_first:
  assumes "delimiter d" and "map canonicalize t = map canonicalize (token re)"
    and "\<not> regex_test re (pre @ d # butlast t)"
  shows "regex_replace re (pre @ d # t @ rest) = pre @ d # replacement re @ rest"
proof -
  have len: "length t = length (token re)"
    using assms(2) by (metis length_map)
  have here: "option_match_here re (d # t @ rest)"
    using assms(1,2) len by (simp add: option_match_here_def)
  have ne: "t \<noteq> []"
  proof
    assume "t = []"
    with len assms(1) have "option_match_here re [d]" by (simp add: option_match_here_def)
    then have "regex_test re (pre @ [d])" by (induction pre) auto
    with \<open>t = []\<close> assms(3) show False by simp
  qed
  from assms(3) show ?thesis
  proof (induction pre)
    case Nil
    with here len show ?case by simp
  next
    case (Cons c pre)
    let ?u = "c # pre @ d # butlast t"
    have split: "c # pre @ d # t @ rest = ?u @ (last t # rest)"
      using ne by simp
    have "length (token re) < length ?u" using len ne by simp
    then have "option_match_here re (?u @ (last t # rest)) = option_match_here re ?u"
      by (rule option_match_here_append)
    then have "option_match_here re (c # pre @ d # t @ rest) = option_match_here re ?u"
      by (simp only: split)
    moreover from Cons.prems have "\<not> option_match_here re ?u" by simp
    ultimately have "\<not> option_match_here re (c # pre @ d # t @ rest)"
      by simp
    moreover from Cons.prems have "\<not> regex_test re (pre @ d # butlast t)" by simp
    ultimately show ?case using Cons.IH by simp
  qed
qed

lemma startsWith_append:
  "length p \<le> length u \<Longrightarrow> startsWith (u @ v) p = startsWith u p"
  by (simp add: startsWith_def)

lemma includes_str_Nil: "includes_str s []"
  by (cases s) (simp_all add: startsWith_def)

lemma includes_str_middle: "includes_str (a @ p @ b) p"
proof (induction a)
  case Nil
  show ?case
  proof (cases "p @ b")
    case Nil
    then show ?thesis by simp
  next
    case (Cons c cs)
    have "startsWith (p @ b) p" by (simp add: startsWith_def)
    with Cons show ?thesis by simp
  qed
next
  case (Cons c a)
  then show ?case by simp
qed

lemma not_includes_drop: "\<not> includes_str s p \<Longrightarrow> \<not> startsWith (drop i s) p"
proof (induction s arbitrary: i)
  case Nil
  then show ?case by (simp add: startsWith_def)
next
  case (Cons c cs)
  then show ?case by (cases i) simp_all
qed

lemma split_str_no_sep:
  "sep \<noteq> [] \<Longrightarrow> \<not> includes_str s sep \<Longrightarrow> split_str sep acc s = [acc @ s]"
  by (induction s arbitrary: acc) simp_all

lemma split_str_first:
  assumes "sep \<noteq> []" and "\<not> includes_str (u @ butlast sep) sep"
  shows "split_str sep acc (u @ sep @ rest) = (acc @ u) # split_str sep [] rest"
  using assms(2)
proof (induction u arbitrary: acc)
  case Nil
  obtain c cs where sep: "sep = c # cs" using assms(1) by (cases sep) auto
  have "startsWith (c # cs @ rest) (c # cs)" by (simp add: startsWith_def)
  then show ?case by (simp add: sep)
next
  case (Cons x u)
  let ?w = "x # u @ butlast sep"
  have split: "x # u @ sep @ rest = ?w @ (last sep # rest)"
    using assms(1) by simp
  have "length sep \<le> length ?w" using assms(1) by simp
  then have "startsWith (?w @ (last sep # rest)) sep = startsWith ?w sep"
    by (rule startsWith_append)
  then have "startsWith (x # u @ sep @ rest) sep = startsWith ?w sep"
    by (simp only: split)
  moreover from Cons.prems have "\<not> startsWith ?w sep" by simp
  ultimately have ns: "\<not> startsWith (x # u @ sep @ rest) sep" by simp
  from Cons.prems have "\<not> includes_str (u @ butlast sep) sep" by simp
  from Cons.IH [OF this, of "acc @ [x]"] ns show ?case by simp
qed

lemma split_limit_once:
  assumes "sep \<noteq> []" and "\<not> includes_str (u @ butlast sep) sep" and "\<not> includes_str rest sep"
  shows "split_limit (u @ sep @ rest) sep 2 = [u, rest]"
  using assms
  by (simp add: split_limit_def split_def split_str_first [where acc = "[]", simplified]
      split_str_no_sep)

lemma greedy_first:
  assumes "m \<le> n" and "k (take m s) (drop m s) = Some r"
    and "\<And>j. m < j \<Longrightarrow> j \<le> n \<Longrightarrow> k (take j s) (drop j s) = None"
  shows "greedy n k s = Some r"
  using assms
proof (induction n)
  case 0
  then show ?case by simp
next
  case (Suc n)
  show ?case
  proof (cases "m = Suc n")
    case True
    with Suc.prems(2) show ?thesis by simp
  next
    case False
    with Suc.prems(1) have le: "m \<le> n" and lt: "m < Suc n" by simp_all
    have none: "k (take (Suc n) s) (drop (Suc n) s) = None"
      using Suc.prems(3) [OF lt] by simp
    have "greedy n k s = Some r"
      using Suc.IH [OF le Suc.prems(2)] Suc.prems(3) by simp
    with none show ?thesis by simp
  qed
qed

lemma dot_star_first:
  assumes "m \<le> length (takeWhile dot s)" and "k (take m s) (drop m s) = Some r"
    and "\<And>j. m < j \<Longrightarrow> j \<le> length (takeWhile dot s) \<Longrightarrow> k (take j s) (drop j s) = None"
  shows "dot_star k s = Some r"
  unfolding dot_star_def using assms by (rule greedy_first)

lemma takeWhile_dot_all: "list_all dot s \<Longrightarrow> takeWhile dot s = s"
  by (induction s) simp_all

lemma style_body_match:
  assumes "list_all dot body"
  shows "dot_star (\<lambda>g2. lit '')'' (\<lambda>rest. Some (f g2))) (body @ '')'') = Some (f body)"
proof -
  let ?k = "\<lambda>g2. lit '')'' (\<lambda>rest. Some (f g2))"
  have run: "length (takeWhile dot (body @ '')'')) = Suc (length body)"
    using assms by (simp add: takeWhile_dot_all dot_def list_all_iff takeWhile_append2)
  have at: "?k (take (length body) (body @ '')'')) (drop (length body) (body @ '')'')) = Some (f body)"
    by (simp add: lit_def startsWith_def)
  have above: "?k (take j (body @ '')'')) (drop j (body @ '')'')) = None"
    if "length body < j" and "j \<le> length (takeWhile dot (body @ '')''))" for j
    using that(1) by (simp add: lit_def startsWith_def)
  have le: "length body \<le> length (takeWhile dot (body @ '')''))"
    using run by simp
  show ?thesis
    by (rule dot_star_first [where m = "length body" and k = ?k, OF le at above])
qed

lemma CSS_RULE_match_here_decompose:
  assumes "list_all dot selector" and "list_all dot body"
    and "\<not> includes_str (''style('' @ body @ '')'') '':style(''"
  shows "CSS_RULE_match_here (selector @ '':style('' @ body @ '')'')
           = Some [selector @ '':style('' @ body @ '')'', selector, body]"
proof -
  let ?s = "selector @ '':style('' @ body @ '')''"
  let ?k = "\<lambda>g1. lit '':style('' (dot_star (\<lambda>g2. lit '')''
       (\<lambda>rest. Some [g1 @ '':style('' @ g2 @ '')'', g1, g2])))"
  have le: "length selector \<le> length (takeWhile dot ?s)"
    using assms(1) by (simp add: takeWhile_append2 list_all_iff)
  have at: "?k (take (length selector) ?s) (drop (length selector) ?s)
              = Some [selector @ '':style('' @ body @ '')'', selector, body]"
    using style_body_match [OF assms(2),
        of "\<lambda>g2. [selector @ '':style('' @ g2 @ '')'', selector, g2]"]
    by (simp add: lit_def startsWith_def)
  have above: "?k (take j ?s) (drop j ?s) = None"
    if "length selector < j" and "j \<le> length (takeWhile dot ?s)" for j
  proof -
    define i where "i = j - Suc (length selector)"
    have j: "j = length selector + Suc i"
      using that(1) by (simp add: i_def)
    have "drop j ?s = drop i (''style('' @ body @ '')'')"
      by (simp add: j)
    then have "\<not> startsWith (drop j ?s) '':style(''"
      using not_includes_drop [OF assms(3), of i] by simp
    then show ?thesis by (simp add: lit_def)
  qed
  show ?thesis
    unfolding CSS_RULE_match_here_def
    by (rule dot_star_first [where m = "length selector" and k = ?k and s = ?s, OF le at above])
qed

lemma CSS_RULE_exec_decompose:
  assumes "list_all dot selector" and "list_all dot body"
    and "\<not> includes_str (''style('' @ body @ '')'') '':style(''"
  shows "CSS_RULE_exec (selector @ '':style('' @ body @ '')'')
           = Some [selector @ '':style('' @ body @ '')'', selector, body]"
  using CSS_RULE_match_here_decompose [OF assms]
  by (cases "selector @ '':style('' @ body @ '')''") simp_all

lemma canonicalize_delimiter: "delimiter d \<Longrightarrow> canonicalize d = d"
proof -
  have "canonicalize (CHR ''$'') = CHR ''$''" "canonicalize (CHR '','') = CHR '',''"
    by code_simp+
  then show "delimiter d \<Longrightarrow> canonicalize d = d"
    by (auto simp: delimiter_def)
qed

lemma regex_test_suffix: "regex_test re v \<Longrightarrow> regex_test re (u @ v)"
  by (induction u) simp_all

lemma regex_test_no_delimiter:
  "\<forall>c \<in> set u. \<not> delimiter c \<Longrightarrow> regex_test re (u @ v) = regex_test re v"
  by (induction u) (simp_all add: option_match_here_def)

lemma option_match_here_before_delimiter:
  assumes "delimiter d" and "\<forall>c \<in> set (token re). \<not> delimiter (canonicalize c)"
  shows "option_match_here re (c # pre @ d # x) = option_match_here re (c # pre @ d # y)"
proof (cases "length (token re) \<le> length pre")
  case True
  then show ?thesis by (simp add: option_match_here_def)
next
  case False
  have no: "map canonicalize (take (length (token re)) (pre @ d # z)) \<noteq> map canonicalize (token re)"
    for z
  proof
    assume eq: "map canonicalize (take (length (token re)) (pre @ d # z)) = map canonicalize (token re)"
    have lt: "length pre < length (token re)" using False by simp
    have "map canonicalize (take (length (token re)) (pre @ d # z)) ! length pre = canonicalize d"
      using lt by (simp add: nth_append)
    with eq have "canonicalize (token re ! length pre) = canonicalize d"
      using lt by simp
    then have "delimiter (canonicalize (token re ! length pre))"
      using assms(1) by (simp add: canonicalize_delimiter)
    moreover have "token re ! length pre \<in> set (token re)" using lt by simp
    ultimately show False using assms(2) by blast
  qed
  show ?thesis using no [of x] no [of y] by (simp add: option_match_here_def)
qed

lemma regex_test_after_replacement:
  assumes "delimiter d" and "\<forall>c \<in> set (token re'). \<not> delimiter (canonicalize c)"
    and "\<forall>c \<in> set rep. \<not> delimiter c"
    and "rep \<noteq> []" and "token re' \<noteq> []"
    and "canonicalize (hd rep) \<noteq> canonicalize (hd (token re'))"
    and "\<not> regex_test re' (pre @ d # t @ rest)"
  shows "\<not> regex_test re' (pre @ d # rep @ rest)"
  using assms(7)
proof (induction pre)
  case Nil
  have "\<not> regex_test re' ((d # t) @ rest)" using Nil by simp
  then have "\<not> regex_test re' rest" using regex_test_suffix by blast
  then have tail: "\<not> regex_test re' (rep @ rest)"
    using assms(3) by (simp add: regex_test_no_delimiter)
  have "\<not> option_match_here re' (d # rep @ rest)"
  proof
    assume "option_match_here re' (d # rep @ rest)"
    then have "map canonicalize (take (length (token re')) (rep @ rest)) = map canonicalize (token re')"
      by (simp add: option_match_here_def)
    then have "hd (map canonicalize (take (length (token re')) (rep @ rest)))
                 = hd (map canonicalize (token re'))"
      by simp
    moreover have "hd (map canonicalize (take (length (token re')) (rep @ rest))) = canonicalize (hd rep)"
      using assms(4,5) by (cases rep; cases "token re'") simp_all
    moreover have "hd (map canonicalize (token re')) = canonicalize (hd (token re'))"
      using assms(5) by (simp add: hd_map)
    ultimately show False using assms(6) by simp
  qed
  with tail show ?case by simp
next
  case (Cons c pre)
  have "option_match_here re' (c # pre @ d # rep @ rest) = option_match_here re' (c # pre @ d # t @ rest)"
    using assms(1,2) by (rule option_match_here_before_delimiter)
  with Cons show ?case by simp
qed

lemma option_regex_distinct:
  "FIRST_PARTY_REGEX \<noteq> XHR_REGEX" "FIRST_PARTY_REGEX \<noteq> CSS_REGEX" "FIRST_PARTY_REGEX \<noteq> FRAME_REGEX"
  "XHR_REGEX \<noteq> CSS_REGEX" "XHR_REGEX \<noteq> FRAME_REGEX" "CSS_REGEX \<noteq> FRAME_REGEX"
  by (simp_all add: FIRST_PARTY_REGEX_def XHR_REGEX_def CSS_REGEX_def FRAME_REGEX_def)

lemma option_tokens_plain:
  assumes "re \<in> {FIRST_PARTY_REGEX, XHR_REGEX, CSS_REGEX, FRAME_REGEX}"
  shows "(\<forall>c \<in> set (token re). \<not> delimiter (canonicalize c)) \<and> token re \<noteq> [] \<and>
         (\<forall>c \<in> set (replacement re). \<not> delimiter c) \<and> replacement re \<noteq> []"
proof -
  have "(\<forall>c \<in> set (token r). \<not> delimiter (canonicalize c)) \<and> token r \<noteq> [] \<and>
        (\<forall>c \<in> set (replacement r). \<not> delimiter c) \<and> replacement r \<noteq> []"
    if "r = FIRST_PARTY_REGEX \<or> r = XHR_REGEX \<or> r = CSS_REGEX \<or> r = FRAME_REGEX" for r
    using that by (elim disjE) (simp only:, code_simp)+
  then show ?thesis using assms by blast
qed

lemma option_replacement_head:
  assumes "re \<in> {FIRST_PARTY_REGEX, XHR_REGEX, CSS_REGEX, FRAME_REGEX}"
    and "re' \<in> {FIRST_PARTY_REGEX, XHR_REGEX, CSS_REGEX, FRAME_REGEX}" and "re' \<noteq> re"
  shows "canonicalize (hd (replacement re)) \<noteq> canonicalize (hd (token re'))"
proof -
  have heads:
    "canonicalize (hd (replacement FIRST_PARTY_REGEX)) = CHR ''~''"
    "canonicalize (hd (replacement XHR_REGEX)) = CHR ''X''"
    "canonicalize (hd (replacement CSS_REGEX)) = CHR ''S''"
    "canonicalize (hd (replacement FRAME_REGEX)) = CHR ''S''"
    "canonicalize (hd (token FIRST_PARTY_REGEX)) = CHR ''F''"
    "canonicalize (hd (token XHR_REGEX)) = CHR ''X''"
    "canonicalize (hd (token CSS_REGEX)) = CHR ''C''"
    "canonicalize (hd (token FRAME_REGEX)) = CHR ''F''"
    by code_simp+
  from assms show ?thesis by (auto simp: heads)
qed

lemma option_rewrites_do_not_cascade:
  assumes "re \<in> {FIRST_PARTY_REGEX, XHR_REGEX, CSS_REGEX, FRAME_REGEX}"
    and "re' \<in> {FIRST_PARTY_REGEX, XHR_REGEX, CSS_REGEX, FRAME_REGEX}" and "re' \<noteq> re"
    and "delimiter d" and "\<not> regex_test re' (pre @ d # t @ rest)"
  shows "\<not> regex_test re' (pre @ d # replacement re @ rest)"
  using assms(4) _ _ _ _ _ assms(5)
proof (rule regex_test_after_replacement)
  show "\<forall>c \<in> set (token re'). \<not> delimiter (canonicalize c)" "token re' \<noteq> []"
    using option_tokens_plain [OF assms(2)] by simp_all
  show "\<forall>c \<in> set (replacement re). \<not> delimiter c" "replacement re \<noteq> []"
    using option_tokens_plain [OF assms(1)] by simp_all
  show "canonicalize (hd (replacement re)) \<noteq> canonicalize (hd (token re'))"
    using assms(1,2,3) by (rule option_replacement_head)
qed

subsection \<open>The converter\<close>

lemma executeConversion_sink_free:
  "executeConversion rule parts mark ex lg = Inr (r, ex', lg') \<Longrightarrow>
   \<exists>ex2 lg2. executeConversion rule parts mark None [] = Inr (r, ex2, lg2)"
  by (auto simp: executeConversion_def Let_def split: list.splits if_splits option.splits)

lemma convert_style_returns:
  "\<exists>r ex' lg'. convert_style rm rule ex lg = Inr (r, ex', lg')"
proof (cases "includes_str rule '':style''")
  case False
  then show ?thesis by (simp add: convert_style_def)
next
  case True
  then have len: "2 \<le> length rule" using includes_str_length [of rule "'':style''"] by simp
  have two: "\<And>m. includes_str rule m \<Longrightarrow> length (split_limit rule m 2) = 2"
    using len by (rule split_limit_two [rotated])
  show ?thesis
    unfolding convert_style_def
    using True two executeConversion_returns by simp
qed

lemma convert_style_sink_free:
  "convert_style rm rule ex lg = Inr (r, ex', lg') \<Longrightarrow>
   \<exists>ex2 lg2. convert_style rm rule None [] = Inr (r, ex2, lg2)"
  unfolding convert_style_def
  by (auto split: if_splits dest: executeConversion_sink_free)

lemma convert_options_fst:
  "fst (convert_options result rule lg) = fst (convert_options [] rule [])"
  by (simp add: convert_options_def Let_def)

lemma convert_loop_map:
  "\<exists>ex' lg'. convert_loop rm rules result ex lg =
     Inr (result @ map (converted_rule rm) rules, ex', lg')"
proof (induction rules arbitrary: result ex lg)
  case Nil
  then show ?case by simp
next
  case (Cons rule rules)
  obtain r ex1 lg1 where st: "convert_style rm rule ex lg = Inr (r, ex1, lg1)"
    using convert_style_returns by blast
  then obtain ex2 lg2 where st0: "convert_style rm rule None [] = Inr (r, ex2, lg2)"
    using convert_style_sink_free by blast
  obtain r2 lg3 where op: "convert_options result r lg1 = (r2, lg3)"
    by (cases "convert_options result r lg1")
  have "r2 = fst (convert_options [] r [])"
    using op convert_options_fst [of result r lg1] by simp
  then have r2: "r2 = converted_rule rm rule"
    using st0 by (simp add: converted_rule_def)
  from Cons.IH [of "result @ [r2]" ex1 lg3] st op r2 show ?case by simp
qed

lemma convert_style_matched:
  "convert_style rm rule excluded lg =
     (if includes_str rule '':style'' then
        (case matched_mask rm rule of
           None \<Rightarrow> Inr (rule, excluded, lg)
         | Some (detect, ruleMark) \<Rightarrow>
             executeConversion rule (split_limit rule detect 2) ruleMark excluded lg)
      else Inr (rule, excluded, lg))"
  by (simp add: convert_style_def matched_mask_def)

lemma convert_options_fst_eq:
  "fst (convert_options result rule lg) =
     regex_replace FRAME_REGEX (regex_replace CSS_REGEX
       (regex_replace XHR_REGEX (regex_replace FIRST_PARTY_REGEX rule)))"
  by (simp add: convert_options_def Let_def regex_replace_no_match)

lemma matched_mask_included:
  "matched_mask rm rule = Some (detect, ruleMark) \<Longrightarrow> includes_str rule detect"
  by (auto simp: matched_mask_def split: if_splits)

lemma convert_style_declined:
  assumes "\<not> style_pattern_matches rm rule"
  shows "convert_style rm rule excluded lg = Inr (rule, excluded, lg)"
proof (cases "includes_str rule '':style''")
  case False
  then show ?thesis by (simp add: convert_style_def)
next
  case True
  then have len: "2 \<le> length rule" using includes_str_length [of rule "'':style''"] by simp
  show ?thesis
  proof (cases "matched_mask rm rule")
    case None
    with True show ?thesis by (simp add: convert_style_matched)
  next
    case (Some pair)
    obtain detect ruleMark where pair: "pair = (detect, ruleMark)" by (cases pair)
    have "length (split_limit rule detect 2) = 2"
      using matched_mask_included Some pair len by (intro split_limit_two) auto
    then obtain domain rulePart where parts: "split_limit rule detect 2 = [domain, rulePart]"
      by (auto simp: length_Suc_conv numeral_2_eq_2)
    from assms True Some pair parts have "domain = [] \<or> CSS_RULE_exec rulePart = None"
      by (simp add: style_pattern_matches_def)
    then have "executeConversion rule [domain, rulePart] ruleMark excluded lg = Inr (rule, excluded, lg)"
      by (auto simp: executeConversion_def)
    with True Some pair parts show ?thesis by (simp add: convert_style_matched)
  qed
qed

lemma matches_no_pattern_unchanged:
  "matches_no_pattern rm rule \<Longrightarrow> converted_rule rm rule = rule"
  by (simp add: matches_no_pattern_def converted_rule_def convert_style_declined
      convert_options_def)

text \<open>
  C1. For every list of rules, \<open>convert\<close> returns (it does not throw) a list of the same
  length in which position \<open>i\<close> holds the conversion of the rule at position \<open>i\<close> of the input, so
  no rule is dropped and the order is kept; a rule that matches none of the conversion
  patterns is returned unchanged. That covers the rules to which the CSS injection pattern
  does not apply for lack of \<open>:style\<close>, of a marker, of a text before the marker or of a match
  in the text after it, as long as none of the four option patterns is found in them.
\<close>

theorem convert_preserves_length_and_order:
  "\<exists>result excluded' lg'.
     convert rm rulesList excluded lg = Inr (result, excluded', lg') \<and>
     length result = length rulesList \<and>
     (\<forall>i < length rulesList.
        result ! i = converted_rule rm (rulesList ! i) \<and>
        (matches_no_pattern rm (rulesList ! i) \<longrightarrow> result ! i = rulesList ! i))"
proof -
  obtain ex' lg' where
    "convert rm rulesList excluded lg = Inr (map (converted_rule rm) rulesList, ex', lg')"
    using convert_loop_map [of rm rulesList "[]" excluded lg] by (auto simp: convert_def)
  then show ?thesis by (simp add: matches_no_pattern_unchanged)
qed

theorem convert_preserves_length_and_order_witness:
  "\<exists>result excluded' lg'.
     convert RuleMasks
       [''example.com##h1:style(color: red)'', ''||example.org^$image'',
        ''example.com##h1:style(color: red'', ''##h1:style(color: red)'', ''||ads.example^$xhr'']
       None [] = Inr (result, excluded', lg') \<and>
     length result = 5 \<and> result ! 1 = ''||example.org^$image'' \<and>
     result ! 2 = ''example.com##h1:style(color: red'' \<and>
     result ! 3 = ''##h1:style(color: red)''"
proof -
  let ?rules = "[''example.com##h1:style(color: red)'', ''||example.org^$image'',
        ''example.com##h1:style(color: red'', ''##h1:style(color: red)'', ''||ads.example^$xhr'']"
  have m: "matches_no_pattern RuleMasks (?rules ! 1)"
    "matches_no_pattern RuleMasks (?rules ! 2)"
    "matches_no_pattern RuleMasks (?rules ! 3)"
    by code_simp+
  obtain result excluded' lg' where
    r: "convert RuleMasks ?rules None [] = Inr (result, excluded', lg')" and
    len: "length result = length ?rules" and
    all: "\<forall>i < length ?rules. result ! i = converted_rule RuleMasks (?rules ! i) \<and>
            (matches_no_pattern RuleMasks (?rules ! i) \<longrightarrow> result ! i = ?rules ! i)"
    using convert_preserves_length_and_order [of RuleMasks ?rules None "[]"] by blast
  have i: "(1::nat) < length ?rules" "(2::nat) < length ?rules" "(3::nat) < length ?rules"
    by simp_all
  have "result ! 1 = ?rules ! 1" using all [rule_format, OF i(1)] m(1) by blast
  moreover have "result ! 2 = ?rules ! 2" using all [rule_format, OF i(2)] m(2) by blast
  moreover have "result ! 3 = ?rules ! 3" using all [rule_format, OF i(3)] m(3) by blast
  ultimately have "result ! 1 = ''||example.org^$image''"
    "result ! 2 = ''example.com##h1:style(color: red''"
    "result ! 3 = ''##h1:style(color: red)''"
    by simp_all
  with r len show ?thesis by simp
qed

lemma convert_result:
  "map_sum id fst (convert rm rulesList excluded lg) = Inr (map (converted_rule rm) rulesList)"
  using convert_loop_map [of rm rulesList "[]" excluded lg] by (auto simp: convert_def)

text \<open>
  C2, as stated, fails on its second example: in \<open>example.com#@##h1:style(color: red)\<close> the
  marker \<open>##\<close> occurs and is tried before \<open>#@#\<close>, so the rule is split at \<open>##\<close> and the
  result is \<open>example.com#@#$#h1 { color: red }\<close>.
\<close>

theorem convert_style_examples_counterexample:
  "map_sum id fst (convert RuleMasks [''example.com#@##h1:style(color: red)''] None [])
     = Inr [''example.com#@#$#h1 { color: red }''] \<and>
   map_sum id fst (convert RuleMasks [''example.com#@##h1:style(color: red)''] None [])
     \<noteq> Inr [''example.com#@$#h1 { color: red }'']"
  by code_simp

lemma style_converted_eq:
  "convert_style rm rule excluded lg = Inr (r, excluded', lg') \<Longrightarrow> style_converted rm rule = r"
  by (auto simp: style_converted_def dest: convert_style_sink_free)

lemma style_converted_declined:
  "\<not> style_pattern_matches rm rule \<Longrightarrow> style_converted rm rule = rule"
  by (simp add: style_converted_def convert_style_declined)

lemma style_pattern_needs_style:
  "\<not> includes_str rule '':style'' \<Longrightarrow> \<not> style_pattern_matches rm rule"
  by (simp add: style_pattern_matches_def)

lemma converted_rule_chain:
  "converted_rule rm rule =
     regex_replace FRAME_REGEX (regex_replace CSS_REGEX
       (regex_replace XHR_REGEX (regex_replace FIRST_PARTY_REGEX (style_converted rm rule))))"
proof -
  obtain r ex lg where st: "convert_style rm rule None [] = Inr (r, ex, lg)"
    using convert_style_returns by blast
  then show ?thesis
    by (simp add: converted_rule_def style_converted_def convert_options_fst_eq)
qed

lemma convert_chain:
  "map_sum id fst (convert rm rulesList excluded lg) =
     Inr (map (\<lambda>rule. regex_replace FRAME_REGEX (regex_replace CSS_REGEX
            (regex_replace XHR_REGEX (regex_replace FIRST_PARTY_REGEX (style_converted rm rule)))))
          rulesList)"
  by (simp add: convert_result converted_rule_chain)

lemma convert_style_reconstructs:
  assumes "rule = domain @ detect @ selector @ '':style('' @ body @ '')''"
    and "matched_mask rm rule = Some (detect, ruleMark)"
    and "detect \<noteq> []" and "domain \<noteq> []"
    and "\<not> includes_str (domain @ butlast detect) detect"
    and "\<not> includes_str (selector @ '':style('' @ body @ '')'') detect"
    and "list_all dot selector" and "list_all dot body"
    and "\<not> includes_str (''style('' @ body @ '')'') '':style(''"
  shows "map_sum id fst (convert_style rm rule excluded lg)
           = Inr (domain @ ruleMark @ selector @ '' { '' @ body @ '' }'')"
proof -
  have st: "includes_str rule '':style''"
    using includes_str_middle [of "domain @ detect @ selector" "'':style''" "''('' @ body @ '')''"]
    by (simp add: assms(1))
  have parts: "split_limit rule detect 2 = [domain, selector @ '':style('' @ body @ '')'']"
    unfolding assms(1) using assms(3,5,6) by (rule split_limit_once)
  have groups: "CSS_RULE_exec (selector @ '':style('' @ body @ '')'')
                  = Some [selector @ '':style('' @ body @ '')'', selector, body]"
    using assms(7,8,9) by (rule CSS_RULE_exec_decompose)
  show ?thesis
    using st assms(2,4) parts groups
    by (simp add: convert_style_matched executeConversion_def Let_def)
qed

text \<open>
  C2, amended. The marker at which a rule is split is the first of \<open>#?#\<close>, \<open>#@?#\<close>, \<open>##\<close>
  and \<open>#@#\<close> that occurs in it. When the rule is a non-empty domain, that marker (occurring
  there for the first time and not again), a selector, \<open>:style(\<close>, a style body and \<open>)\<close>, with no
  line break in selector and body and no further \<open>:style(\<close>, the CSS injection conversion
  gives the domain, the output marker, the selector and the style body between braces;
  \<open>convert\<close> returns that text after the option rewrites. So
  \<open>example.com##h1:style(color: blue !important)\<close> becomes
  \<open>example.com#$#h1 { color: blue !important }\<close>, and the exception rule
  \<open>example.com#@#h1:style(color: red)\<close> becomes \<open>example.com#@$#h1 { color: red }\<close>.
\<close>

theorem convert_style_examples:
  "(rule = domain @ detect @ selector @ '':style('' @ body @ '')'' \<and>
    matched_mask rm rule = Some (detect, ruleMark) \<and> detect \<noteq> [] \<and> domain \<noteq> [] \<and>
    \<not> includes_str (domain @ butlast detect) detect \<and>
    \<not> includes_str (selector @ '':style('' @ body @ '')'') detect \<and>
    list_all dot selector \<and> list_all dot body \<and>
    \<not> includes_str (''style('' @ body @ '')'') '':style('' \<longrightarrow>
      map_sum id fst (convert_style rm rule excluded lg)
        = Inr (domain @ ruleMark @ selector @ '' { '' @ body @ '' }'') \<and>
      map_sum id fst (convert rm [rule] excluded lg)
        = Inr [regex_replace FRAME_REGEX (regex_replace CSS_REGEX
                 (regex_replace XHR_REGEX (regex_replace FIRST_PARTY_REGEX
                    (domain @ ruleMark @ selector @ '' { '' @ body @ '' }''))))]) \<and>
   map_sum id fst (convert RuleMasks [''example.com##h1:style(color: blue !important)''] excluded lg)
     = Inr [''example.com#$#h1 { color: blue !important }''] \<and>
   map_sum id fst (convert RuleMasks [''example.com#@#h1:style(color: red)''] excluded lg)
     = Inr [''example.com#@$#h1 { color: red }'']"
proof -
  have general: "map_sum id fst (convert_style rm rule excluded lg)
        = Inr (domain @ ruleMark @ selector @ '' { '' @ body @ '' }'') \<and>
      map_sum id fst (convert rm [rule] excluded lg)
        = Inr [regex_replace FRAME_REGEX (regex_replace CSS_REGEX
                 (regex_replace XHR_REGEX (regex_replace FIRST_PARTY_REGEX
                    (domain @ ruleMark @ selector @ '' { '' @ body @ '' }''))))]"
    if h: "rule = domain @ detect @ selector @ '':style('' @ body @ '')''"
      "matched_mask rm rule = Some (detect, ruleMark)" "detect \<noteq> []" "domain \<noteq> []"
      "\<not> includes_str (domain @ butlast detect) detect"
      "\<not> includes_str (selector @ '':style('' @ body @ '')'') detect"
      "list_all dot selector" "list_all dot body"
      "\<not> includes_str (''style('' @ body @ '')'') '':style(''"
  proof -
    have a: "map_sum id fst (convert_style rm rule ex l)
               = Inr (domain @ ruleMark @ selector @ '' { '' @ body @ '' }'')" for ex l
      using h by (rule convert_style_reconstructs)
    obtain r ex' lg' where r: "convert_style rm rule None [] = Inr (r, ex', lg')"
      using convert_style_returns by blast
    with a [of None "[]"] have "style_converted rm rule
               = domain @ ruleMark @ selector @ '' { '' @ body @ '' }''"
      by (simp add: style_converted_def)
    with a show ?thesis by (simp add: convert_chain)
  qed
  have "converted_rule RuleMasks ''example.com##h1:style(color: blue !important)''
          = ''example.com#$#h1 { color: blue !important }''"
    by code_simp
  then have ex1: "map_sum id fst
      (convert RuleMasks [''example.com##h1:style(color: blue !important)''] excluded lg)
     = Inr [''example.com#$#h1 { color: blue !important }'']"
    by (simp add: convert_result)
  have "converted_rule RuleMasks ''example.com#@#h1:style(color: red)''
          = ''example.com#@$#h1 { color: red }''"
    by code_simp
  then have ex2: "map_sum id fst (convert RuleMasks [''example.com#@#h1:style(color: red)''] excluded lg)
     = Inr [''example.com#@$#h1 { color: red }'']"
    by (simp add: convert_result)
  from general ex1 ex2 show ?thesis by blast
qed

theorem convert_style_examples_witness:
  "map_sum id fst (convert_style RuleMasks
      (''example.com'' @ ''#@#'' @ ''h1'' @ '':style('' @ ''color: red'' @ '')'') None [])
     = Inr (''example.com'' @ ''#@$#'' @ ''h1'' @ '' { '' @ ''color: red'' @ '' }'') \<and>
   map_sum id fst (convert RuleMasks [''example.com#@#h1:style(color: red)''] None [])
     = Inr [''example.com#@$#h1 { color: red }'']"
proof -
  let ?rule = "''example.com'' @ ''#@#'' @ ''h1'' @ '':style('' @ ''color: red'' @ '')''"
  have a: "?rule = ''example.com'' @ ''#@#'' @ ''h1'' @ '':style('' @ ''color: red'' @ '')''"
    by simp
  have b: "matched_mask RuleMasks ?rule = Some (''#@#'', ''#@$#'')" by code_simp
  have c: "''#@#'' \<noteq> []" "''example.com'' \<noteq> []" by simp_all
  have d: "\<not> includes_str (''example.com'' @ butlast ''#@#'') ''#@#''" by code_simp
  have e: "\<not> includes_str (''h1'' @ '':style('' @ ''color: red'' @ '')'') ''#@#''" by code_simp
  have f: "list_all dot ''h1''" "list_all dot ''color: red''" by code_simp+
  have g: "\<not> includes_str (''style('' @ ''color: red'' @ '')'') '':style(''" by code_simp
  from convert_style_examples [of ?rule "''example.com''" "''#@#''" "''h1''" "''color: red''"
      RuleMasks "''#@$#''" None "[]"] a b c d e f g
  show ?thesis by (metis (no_types, lifting))
qed

subsection \<open>The option rewrites\<close>

text \<open>
  C3. For each of the four option patterns: when a delimiter \<open>d\<close> (\<open>$\<close> or a comma) is followed
  by a text \<open>t\<close> that equals the token up to case, and no match begins before \<open>d\<close>, the
  replacement keeps what precedes, keeps \<open>d\<close>, puts the new token for \<open>t\<close> and keeps what
  follows. For every list of rules, \<open>convert\<close> returns each rule after the CSS injection
  conversion and then the four replacements, each applied whether or not the others match
  and whether or not the rule holds \<open>:style\<close>, so several can take effect in one rule, as in
  \<open>||example.org^$first-party,xhr\<close>.
\<close>

theorem convert_rewrites_options:
  "(\<forall>re \<in> {FIRST_PARTY_REGEX, XHR_REGEX, CSS_REGEX, FRAME_REGEX}. \<forall>pre d t rest.
      delimiter d \<and> map canonicalize t = map canonicalize (token re) \<and>
      \<not> regex_test re (pre @ d # butlast t) \<longrightarrow>
      regex_replace re (pre @ d # t @ rest) = pre @ d # replacement re @ rest) \<and>
   map_sum id fst (convert rm rulesList excluded lg) =
     Inr (map (\<lambda>rule. regex_replace FRAME_REGEX (regex_replace CSS_REGEX
                 (regex_replace XHR_REGEX (regex_replace FIRST_PARTY_REGEX
                    (style_converted rm rule)))))
            rulesList) \<and>
   (\<forall>rule. \<not> style_pattern_matches rm rule \<longrightarrow> style_converted rm rule = rule) \<and>
   (\<forall>rule. \<not> includes_str rule '':style'' \<longrightarrow> \<not> style_pattern_matches rm rule) \<and>
   regex_replace FIRST_PARTY_REGEX ''$First-Party'' = ''$~third-party'' \<and>
   regex_replace XHR_REGEX '',XHR'' = '',xmlhttprequest'' \<and>
   regex_replace CSS_REGEX ''$css'' = ''$stylesheet'' \<and>
   regex_replace FRAME_REGEX '',Frame'' = '',subdocument'' \<and>
   map_sum id fst (convert RuleMasks [''||example.org^$first-party,xhr''] excluded lg) =
     Inr [''||example.org^$~third-party,xmlhttprequest''] \<and>
   map_sum id fst (convert RuleMasks [''||example.org^$xhr,frame''] excluded lg) =
     Inr [''||example.org^$xmlhttprequest,subdocument''] \<and>
   map_sum id fst (convert RuleMasks [''example.com,css##h1:style(color: red)''] excluded lg) =
     Inr [''example.com,stylesheet#$#h1 { color: red }''] \<and>
   map_sum id fst (convert RuleMasks [''example.com##h1:style$xhr''] excluded lg) =
     Inr [''example.com##h1:style$xmlhttprequest'']"
proof -
  have general: "\<forall>re \<in> {FIRST_PARTY_REGEX, XHR_REGEX, CSS_REGEX, FRAME_REGEX}. \<forall>pre d t rest.
      delimiter d \<and> map canonicalize t = map canonicalize (token re) \<and>
      \<not> regex_test re (pre @ d # butlast t) \<longrightarrow>
      regex_replace re (pre @ d # t @ rest) = pre @ d # replacement re @ rest"
    using regex_replace_first by blast
  have chain: "map_sum id fst (convert rm rulesList excluded lg) =
     Inr (map (\<lambda>rule. regex_replace FRAME_REGEX (regex_replace CSS_REGEX
                 (regex_replace XHR_REGEX (regex_replace FIRST_PARTY_REGEX
                    (style_converted rm rule)))))
            rulesList)"
    by (rule convert_chain)
  have declined: "\<forall>rule. \<not> style_pattern_matches rm rule \<longrightarrow> style_converted rm rule = rule"
    "\<forall>rule. \<not> includes_str rule '':style'' \<longrightarrow> \<not> style_pattern_matches rm rule"
    using style_converted_declined style_pattern_needs_style by blast+
  have single: "regex_replace FIRST_PARTY_REGEX ''$First-Party'' = ''$~third-party''"
    "regex_replace XHR_REGEX '',XHR'' = '',xmlhttprequest''"
    "regex_replace CSS_REGEX ''$css'' = ''$stylesheet''"
    "regex_replace FRAME_REGEX '',Frame'' = '',subdocument''"
    by code_simp+
  have "converted_rule RuleMasks ''||example.org^$first-party,xhr''
               = ''||example.org^$~third-party,xmlhttprequest''"
    "converted_rule RuleMasks ''||example.org^$xhr,frame''
               = ''||example.org^$xmlhttprequest,subdocument''"
    "converted_rule RuleMasks ''example.com,css##h1:style(color: red)''
               = ''example.com,stylesheet#$#h1 { color: red }''"
    "converted_rule RuleMasks ''example.com##h1:style$xhr''
               = ''example.com##h1:style$xmlhttprequest''"
    by code_simp+
  then have examples:
    "map_sum id fst (convert RuleMasks [''||example.org^$first-party,xhr''] excluded lg) =
       Inr [''||example.org^$~third-party,xmlhttprequest'']"
    "map_sum id fst (convert RuleMasks [''||example.org^$xhr,frame''] excluded lg) =
       Inr [''||example.org^$xmlhttprequest,subdocument'']"
    "map_sum id fst (convert RuleMasks [''example.com,css##h1:style(color: red)''] excluded lg) =
       Inr [''example.com,stylesheet#$#h1 { color: red }'']"
    "map_sum id fst (convert RuleMasks [''example.com##h1:style$xhr''] excluded lg) =
       Inr [''example.com##h1:style$xmlhttprequest'']"
    by (simp_all add: convert_result)
  from general chain declined single examples show ?thesis by blast
qed

theorem convert_rewrites_options_witness:
  "regex_replace XHR_REGEX (''||example.org^'' @ CHR ''$'' # ''XhR'' @ '',image'')
     = ''||example.org^'' @ CHR ''$'' # ''xmlhttprequest'' @ '',image'' \<and>
   style_converted RuleMasks ''example.com##h1:style$xhr'' = ''example.com##h1:style$xhr'' \<and>
   map_sum id fst (convert RuleMasks [''||example.org^$first-party,xhr''] None []) =
     Inr [''||example.org^$~third-party,xmlhttprequest'']"
proof -
  have a: "XHR_REGEX \<in> {FIRST_PARTY_REGEX, XHR_REGEX, CSS_REGEX, FRAME_REGEX}" by simp
  have b: "delimiter (CHR ''$'')" by code_simp
  have c: "map canonicalize ''XhR'' = map canonicalize (token XHR_REGEX)" by code_simp
  have d: "\<not> regex_test XHR_REGEX (''||example.org^'' @ CHR ''$'' # butlast ''XhR'')" by code_simp
  have e: "replacement XHR_REGEX = ''xmlhttprequest''" by code_simp
  have f: "\<not> style_pattern_matches RuleMasks ''example.com##h1:style$xhr''" by code_simp
  note inst = convert_rewrites_options [of RuleMasks "[''plain'']" None "[]"]
  have g: "regex_replace XHR_REGEX (''||example.org^'' @ CHR ''$'' # ''XhR'' @ '',image'')
     = ''||example.org^'' @ CHR ''$'' # replacement XHR_REGEX @ '',image''"
    using inst a b c d by blast
  have h: "style_converted RuleMasks ''example.com##h1:style$xhr'' = ''example.com##h1:style$xhr''"
    using inst f by blast
  have i: "map_sum id fst (convert RuleMasks [''||example.org^$first-party,xhr''] None []) =
     Inr [''||example.org^$~third-party,xmlhttprequest'']"
    using inst by blast
  from g h i e show ?thesis by simp
qed

lemma option_chain_single:
  assumes "re \<in> {FIRST_PARTY_REGEX, XHR_REGEX, CSS_REGEX, FRAME_REGEX}"
    and "regex_replace re s = s'"
    and "\<And>re'. re' \<in> {FIRST_PARTY_REGEX, XHR_REGEX, CSS_REGEX, FRAME_REGEX} \<Longrightarrow> re' \<noteq> re \<Longrightarrow>
           regex_replace re' s = s \<and> regex_replace re' s' = s'"
  shows "regex_replace FRAME_REGEX (regex_replace CSS_REGEX
           (regex_replace XHR_REGEX (regex_replace FIRST_PARTY_REGEX s))) = s'"
proof -
  note d = option_regex_distinct option_regex_distinct [symmetric]
  from assms(1) consider "re = FIRST_PARTY_REGEX" | "re = XHR_REGEX" | "re = CSS_REGEX"
    | "re = FRAME_REGEX" by blast
  then show ?thesis
  proof cases
    case 1
    with assms(2) assms(3) [of XHR_REGEX] assms(3) [of CSS_REGEX] assms(3) [of FRAME_REGEX]
    show ?thesis by (simp add: d)
  next
    case 2
    with assms(2) assms(3) [of FIRST_PARTY_REGEX] assms(3) [of CSS_REGEX] assms(3) [of FRAME_REGEX]
    show ?thesis by (simp add: d)
  next
    case 3
    with assms(2) assms(3) [of FIRST_PARTY_REGEX] assms(3) [of XHR_REGEX] assms(3) [of FRAME_REGEX]
    show ?thesis by (simp add: d)
  next
    case 4
    with assms(2) assms(3) [of FIRST_PARTY_REGEX] assms(3) [of XHR_REGEX] assms(3) [of CSS_REGEX]
    show ?thesis by (simp add: d)
  qed
qed

lemma convert_first_occurrence_only:
  assumes re: "re \<in> {FIRST_PARTY_REGEX, XHR_REGEX, CSS_REGEX, FRAME_REGEX}"
    and s: "style_converted rm rule = pre @ d # t @ rest"
    and d: "delimiter d" and t: "map canonicalize t = map canonicalize (token re)"
    and first: "\<not> regex_test re (pre @ d # butlast t)"
    and others: "\<forall>re' \<in> {FIRST_PARTY_REGEX, XHR_REGEX, CSS_REGEX, FRAME_REGEX}.
                   re' \<noteq> re \<longrightarrow> \<not> regex_test re' (style_converted rm rule)"
  shows "map_sum id fst (convert rm [rule] excluded lg) = Inr [pre @ d # replacement re @ rest]"
proof -
  have one: "regex_replace re (pre @ d # t @ rest) = pre @ d # replacement re @ rest"
    using d t first by (rule regex_replace_first)
  have other: "regex_replace re' (pre @ d # t @ rest) = pre @ d # t @ rest \<and>
               regex_replace re' (pre @ d # replacement re @ rest) = pre @ d # replacement re @ rest"
    if "re' \<in> {FIRST_PARTY_REGEX, XHR_REGEX, CSS_REGEX, FRAME_REGEX}" and "re' \<noteq> re" for re'
  proof -
    have no: "\<not> regex_test re' (pre @ d # t @ rest)" using others that s by auto
    then have "\<not> regex_test re' (pre @ d # replacement re @ rest)"
      using re that d by (intro option_rewrites_do_not_cascade)
    with no show ?thesis by (simp add: regex_replace_no_match)
  qed
  have "regex_replace FRAME_REGEX (regex_replace CSS_REGEX
           (regex_replace XHR_REGEX (regex_replace FIRST_PARTY_REGEX (pre @ d # t @ rest))))
          = pre @ d # replacement re @ rest"
    using re one other by (rule option_chain_single)
  then show ?thesis by (simp add: convert_chain s)
qed

text \<open>
  C10. Each of the four option rewrites replaces the leftmost match only: when the token
  occurs again later in the rule, after a delimiter, that occurrence is left as it is. This
  holds for the single replacement and for \<open>convert\<close>: when the rule, after the CSS injection
  conversion, holds one of the four tokens twice and none of the other three, \<open>convert\<close>
  returns it with the first occurrence replaced and the second one kept. So \<open>convert\<close> maps
  \<open>||example.org^$xhr,xhr\<close> to \<open>||example.org^$xmlhttprequest,xhr\<close>.
\<close>

theorem option_rewrite_first_occurrence_only:
  "(\<forall>re \<in> {FIRST_PARTY_REGEX, XHR_REGEX, CSS_REGEX, FRAME_REGEX}. \<forall>pre d t mid d' t' post.
      delimiter d \<and> map canonicalize t = map canonicalize (token re) \<and>
      delimiter d' \<and> map canonicalize t' = map canonicalize (token re) \<and>
      \<not> regex_test re (pre @ d # butlast t) \<longrightarrow>
      regex_replace re (pre @ d # t @ mid @ d' # t' @ post)
        = pre @ d # replacement re @ mid @ d' # t' @ post) \<and>
   (\<forall>re \<in> {FIRST_PARTY_REGEX, XHR_REGEX, CSS_REGEX, FRAME_REGEX}. \<forall>pre d t mid d' t' post.
      style_converted rm rule = pre @ d # t @ mid @ d' # t' @ post \<and>
      delimiter d \<and> map canonicalize t = map canonicalize (token re) \<and>
      delimiter d' \<and> map canonicalize t' = map canonicalize (token re) \<and>
      \<not> regex_test re (pre @ d # butlast t) \<and>
      (\<forall>re' \<in> {FIRST_PARTY_REGEX, XHR_REGEX, CSS_REGEX, FRAME_REGEX}.
         re' \<noteq> re \<longrightarrow> \<not> regex_test re' (style_converted rm rule)) \<longrightarrow>
      map_sum id fst (convert rm [rule] excluded lg)
        = Inr [pre @ d # replacement re @ mid @ d' # t' @ post]) \<and>
   map_sum id fst (convert RuleMasks [''||example.org^$xhr,xhr''] excluded lg) =
     Inr [''||example.org^$xmlhttprequest,xhr''] \<and>
   map_sum id fst (convert RuleMasks [''||a^$css,css''] excluded lg) =
     Inr [''||a^$stylesheet,css''] \<and>
   map_sum id fst (convert RuleMasks [''||a^$frame,frame''] excluded lg) =
     Inr [''||a^$subdocument,frame''] \<and>
   map_sum id fst (convert RuleMasks [''||a^$first-party,first-party''] excluded lg) =
     Inr [''||a^$~third-party,first-party'']"
proof -
  have single: "\<forall>re \<in> {FIRST_PARTY_REGEX, XHR_REGEX, CSS_REGEX, FRAME_REGEX}. \<forall>pre d t mid d' t' post.
      delimiter d \<and> map canonicalize t = map canonicalize (token re) \<and>
      delimiter d' \<and> map canonicalize t' = map canonicalize (token re) \<and>
      \<not> regex_test re (pre @ d # butlast t) \<longrightarrow>
      regex_replace re (pre @ d # t @ mid @ d' # t' @ post)
        = pre @ d # replacement re @ mid @ d' # t' @ post"
    using regex_replace_first by blast
  have whole: "\<forall>re \<in> {FIRST_PARTY_REGEX, XHR_REGEX, CSS_REGEX, FRAME_REGEX}. \<forall>pre d t mid d' t' post.
      style_converted rm rule = pre @ d # t @ mid @ d' # t' @ post \<and>
      delimiter d \<and> map canonicalize t = map canonicalize (token re) \<and>
      delimiter d' \<and> map canonicalize t' = map canonicalize (token re) \<and>
      \<not> regex_test re (pre @ d # butlast t) \<and>
      (\<forall>re' \<in> {FIRST_PARTY_REGEX, XHR_REGEX, CSS_REGEX, FRAME_REGEX}.
         re' \<noteq> re \<longrightarrow> \<not> regex_test re' (style_converted rm rule)) \<longrightarrow>
      map_sum id fst (convert rm [rule] excluded lg)
        = Inr [pre @ d # replacement re @ mid @ d' # t' @ post]"
    using convert_first_occurrence_only by blast
  have "converted_rule RuleMasks ''||example.org^$xhr,xhr'' = ''||example.org^$xmlhttprequest,xhr''"
    "converted_rule RuleMasks ''||a^$css,css'' = ''||a^$stylesheet,css''"
    "converted_rule RuleMasks ''||a^$frame,frame'' = ''||a^$subdocument,frame''"
    "converted_rule RuleMasks ''||a^$first-party,first-party'' = ''||a^$~third-party,first-party''"
    by code_simp+
  then have examples:
    "map_sum id fst (convert RuleMasks [''||example.org^$xhr,xhr''] excluded lg) =
       Inr [''||example.org^$xmlhttprequest,xhr'']"
    "map_sum id fst (convert RuleMasks [''||a^$css,css''] excluded lg) =
       Inr [''||a^$stylesheet,css'']"
    "map_sum id fst (convert RuleMasks [''||a^$frame,frame''] excluded lg) =
       Inr [''||a^$subdocument,frame'']"
    "map_sum id fst (convert RuleMasks [''||a^$first-party,first-party''] excluded lg) =
       Inr [''||a^$~third-party,first-party'']"
    by (simp_all add: convert_result)
  from single whole examples show ?thesis by blast
qed

theorem option_rewrite_first_occurrence_only_witness:
  "regex_replace CSS_REGEX (''||a^'' @ CHR ''$'' # ''css'' @ '',image'' @ CHR '','' # ''CSS'' @ '',font'')
     = ''||a^'' @ CHR ''$'' # ''stylesheet'' @ '',image'' @ CHR '','' # ''CSS'' @ '',font'' \<and>
   map_sum id fst (convert RuleMasks [''||a^$css,image,CSS,font''] None [])
     = Inr [''||a^'' @ CHR ''$'' # ''stylesheet'' @ '',image'' @ CHR '','' # ''CSS'' @ '',font''] \<and>
   map_sum id fst (convert RuleMasks [''||example.org^$xhr,xhr''] None []) =
     Inr [''||example.org^$xmlhttprequest,xhr'']"
proof -
  let ?s = "''||a^'' @ CHR ''$'' # ''css'' @ '',image'' @ CHR '','' # ''CSS'' @ '',font''"
  have a: "CSS_REGEX \<in> {FIRST_PARTY_REGEX, XHR_REGEX, CSS_REGEX, FRAME_REGEX}" by simp
  have b: "delimiter (CHR ''$'')" "delimiter (CHR '','')" by code_simp+
  have c: "map canonicalize ''css'' = map canonicalize (token CSS_REGEX)"
    "map canonicalize ''CSS'' = map canonicalize (token CSS_REGEX)" by code_simp+
  have d: "\<not> regex_test CSS_REGEX (''||a^'' @ CHR ''$'' # butlast ''css'')" by code_simp
  have e: "replacement CSS_REGEX = ''stylesheet''" by code_simp
  have f: "style_converted RuleMasks ''||a^$css,image,CSS,font'' = ?s" by code_simp
  have "\<not> regex_test FIRST_PARTY_REGEX ?s" "\<not> regex_test XHR_REGEX ?s"
    "\<not> regex_test FRAME_REGEX ?s"
    by code_simp+
  then have g: "\<forall>re' \<in> {FIRST_PARTY_REGEX, XHR_REGEX, CSS_REGEX, FRAME_REGEX}.
         re' \<noteq> CSS_REGEX \<longrightarrow> \<not> regex_test re' (style_converted RuleMasks ''||a^$css,image,CSS,font'')"
    unfolding f by blast
  note inst = option_rewrite_first_occurrence_only
    [of RuleMasks "''||a^$css,image,CSS,font''" None "[]"]
  have h: "regex_replace CSS_REGEX ?s
     = ''||a^'' @ CHR ''$'' # replacement CSS_REGEX @ '',image'' @ CHR '','' # ''CSS'' @ '',font''"
    using inst a b c d by blast
  have i: "map_sum id fst (convert RuleMasks [''||a^$css,image,CSS,font''] None [])
     = Inr [''||a^'' @ CHR ''$'' # replacement CSS_REGEX @ '',image'' @ CHR '','' # ''CSS'' @ '',font'']"
    using inst a b c d f g by blast
  have j: "map_sum id fst (convert RuleMasks [''||example.org^$xhr,xhr''] None []) =
     Inr [''||example.org^$xmlhttprequest,xhr'']"
    using inst by blast
  from h i j show ?thesis by (simp only: e)
qed

subsection \<open>Rules that are not converted\<close>

lemma split_limit_at_start:
  assumes "detect \<noteq> []" and "startsWith rule detect"
  shows "\<exists>rest. split_limit rule detect 2 = [] # rest"
proof (cases rule)
  case Nil
  with assms show ?thesis by (simp add: startsWith_def)
next
  case (Cons c cs)
  with assms show ?thesis by (simp add: split_limit_def split_def)
qed

text \<open>
  C9. When a rule contains \<open>:style\<close> and starts with the marker that \<open>convert\<close> acts on, the
  part before the marker is empty and the CSS injection conversion leaves the rule, the
  \<open>excluded\<close> array and the logger as they are; the rule then only goes through the option
  rewrites.
\<close>

theorem convert_style_empty_domain:
  assumes "includes_str rule '':style''"
    and "matched_mask rm rule = Some (detect, ruleMark)"
    and "detect \<noteq> []"
    and "startsWith rule detect"
  shows "convert_style rm rule excluded lg = Inr (rule, excluded, lg) \<and>
         map_sum id fst (convert rm [rule] excluded lg) = Inr [fst (convert_options [] rule [])]"
proof -
  obtain rest where "split_limit rule detect 2 = [] # rest"
    using split_limit_at_start [OF assms(3,4)] by blast
  then have "executeConversion rule (split_limit rule detect 2) ruleMark ex l = Inr (rule, ex, l)"
    for ex l
    by (simp add: executeConversion_def)
  then have style: "convert_style rm rule ex l = Inr (rule, ex, l)" for ex l
    using assms(1,2) by (simp add: convert_style_matched)
  then have "converted_rule rm rule = fst (convert_options [] rule [])"
    by (simp add: converted_rule_def)
  with style show ?thesis by (simp add: convert_result)
qed

theorem convert_style_empty_domain_witness:
  "convert_style RuleMasks ''##h1:style(color: red)'' None []
     = Inr (''##h1:style(color: red)'', None, []) \<and>
   map_sum id fst (convert RuleMasks [''##h1:style(color: red)''] None [])
     = Inr [''##h1:style(color: red)'']"
proof -
  have a: "includes_str ''##h1:style(color: red)'' '':style''" by code_simp
  have b: "matched_mask RuleMasks ''##h1:style(color: red)'' = Some (''##'', ''#$#'')"
    by code_simp
  have c: "''##'' \<noteq> []" by simp
  have d: "startsWith ''##h1:style(color: red)'' ''##''" by code_simp
  have e: "fst (convert_options [] ''##h1:style(color: red)'' []) = ''##h1:style(color: red)''"
    by code_simp
  from convert_style_empty_domain [OF a b c d, of None "[]"] e show ?thesis by simp
qed

lemma executeConversion_log:
  "executeConversion rule parts mark ex lg = Inr (r, ex', lg') \<Longrightarrow>
   \<exists>new. lg' = lg @ new \<and> \<not> list_ex is_Warn new"
  by (auto simp: executeConversion_def Let_def is_Warn_def
      split: list.splits if_splits option.splits dest: CSS_RULE_exec_length)

lemma convert_style_log:
  "convert_style rm rule ex lg = Inr (r, ex', lg') \<Longrightarrow>
   \<exists>new. lg' = lg @ new \<and> \<not> list_ex is_Warn new"
  unfolding convert_style_def
  by (auto split: if_splits dest: executeConversion_log)

lemma convert_options_log:
  "convert_options result rule lg = (r, lg') \<Longrightarrow>
   \<exists>new. lg' = lg @ new \<and> \<not> list_ex is_Warn new"
  by (auto simp: convert_options_def Let_def is_Warn_def split: if_splits)

lemma convert_loop_log:
  "convert_loop rm rules result ex lg = Inr (res, ex', lg') \<Longrightarrow>
   \<exists>new. lg' = lg @ new \<and> \<not> list_ex is_Warn new"
proof (induction rules arbitrary: result ex lg)
  case Nil
  then show ?case by simp
next
  case (Cons rule rules)
  from Cons.prems obtain r1 ex1 lg1 r2 lg2 where
    st: "convert_style rm rule ex lg = Inr (r1, ex1, lg1)" and
    op: "convert_options result r1 lg1 = (r2, lg2)" and
    rest: "convert_loop rm rules (result @ [r2]) ex1 lg2 = Inr (res, ex', lg')"
    by (auto split: sum.splits prod.splits)
  from convert_style_log [OF st] obtain n1 where n1: "lg1 = lg @ n1" "\<not> list_ex is_Warn n1"
    by blast
  from convert_options_log [OF op] obtain n2 where n2: "lg2 = lg1 @ n2" "\<not> list_ex is_Warn n2"
    by blast
  from Cons.IH [OF rest] obtain n3 where n3: "lg' = lg2 @ n3" "\<not> list_ex is_Warn n3"
    by blast
  have "lg' = lg @ (n1 @ n2 @ n3)" using n1 n2 n3 by simp
  moreover have "\<not> list_ex is_Warn (n1 @ n2 @ n3)" using n1 n2 n3 by simp
  ultimately show ?case by blast
qed

text \<open>
  C6. \<open>convert\<close> never writes a warning: every entry it adds to the logger comes from
  \<open>logger.log\<close>. The match array of the pattern always has three elements, so the branch
  that warns cannot be taken, and a rule whose part after the marker does not match the
  pattern, such as \<open>example.com##h1:style(color: red\<close>, is returned unchanged without a
  warning.
\<close>

theorem convert_never_warns:
  "convert rm rulesList excluded lg = Inr (result, excluded', lg') \<Longrightarrow>
   \<exists>new. lg' = lg @ new \<and> \<not> list_ex is_Warn new"
  unfolding convert_def by (rule convert_loop_log)

theorem convert_never_warns_witness:
  "convert RuleMasks [''example.com##h1:style(color: red''] None []
     = Inr ([''example.com##h1:style(color: red''], None, []) \<and>
   (\<exists>new. [] = [] @ new \<and> \<not> list_ex is_Warn new)"
proof -
  have a: "convert RuleMasks [''example.com##h1:style(color: red''] None []
     = Inr ([''example.com##h1:style(color: red''], None, [])"
    by code_simp
  from convert_never_warns [OF a] a show ?thesis by simp
qed

subsection \<open>The exclusion filter\<close>

lemma trim_slashed: "trim (CHR ''/'' # body @ ''/'') = CHR ''/'' # body @ ''/''"
  by (simp add: trim_def isWhiteSpace_def)

text \<open>
  C4. For an entry \<open>/body/\<close> the pattern handed to \<open>RegExp\<close> is not the text between the
  slashes: \<open>substring(1, length - 2)\<close> also drops the last character of the body. With the
  entry \<open>/abc/\<close> the pattern is \<open>ab\<close>, and the line \<open>ab\<close> is excluded although it does not
  match \<open>abc\<close>.
\<close>

theorem isExcluded_slashed_pattern:
  assumes "body \<noteq> []"
  shows "isExcluded env line [''/'' @ body @ ''/''] =
           (case RegExp env (butlast body) of
              None \<Rightarrow> Inl SyntaxError
            | Some matches \<Rightarrow> Inr (matches line))"
proof -
  let ?e = "CHR ''/'' # body @ ''/''"
  have sub: "substring ?e 1 (int (length ?e) - 2) = butlast body"
  proof -
    have "Suc 0 \<le> length body" using assms by (cases body) simp_all
    with assms show ?thesis
      by (simp add: substring_def Let_def butlast_conv_take min_def max_def)
  qed
  have "startsWith ?e ''/''" "endsWith ?e ''/''" "\<not> startsWith ?e ''!''"
    by (simp_all add: startsWith_def endsWith_def)
  then show ?thesis
    using sub by (simp add: trim_slashed Let_def split: option.splits)
qed

theorem isExcluded_slashed_pattern_witness:
  "isExcluded sample_env ''ab'' [''/'' @ ''abc'' @ ''/''] = Inr True \<and>
   \<not> includes_str ''ab'' ''abc''"
proof -
  have a: "''abc'' \<noteq> []" by simp
  have b: "RegExp sample_env (butlast ''abc'') = Some (\<lambda>line. includes_str line ''ab'')"
    by (simp add: sample_env_def)
  have c: "includes_str ''ab'' ''ab''" "\<not> includes_str ''ab'' ''abc''" by code_simp+
  from isExcluded_slashed_pattern [OF a, of sample_env "''ab''"] b c show ?thesis by simp
qed

lemma filter_excluded_idem:
  "filter_excluded env exclusions lines = Inr result \<Longrightarrow>
   filter_excluded env exclusions result = Inr result"
proof (induction lines arbitrary: result)
  case Nil
  then show ?case by simp
next
  case (Cons line lines)
  from Cons.prems obtain ex r where
    ex: "isExcluded env line exclusions = Inr ex" and
    r: "filter_excluded env exclusions lines = Inr r" and
    res: "result = (if ex then r else line # r)"
    by (auto split: sum.splits)
  from Cons.IH [OF r] have "filter_excluded env exclusions r = Inr r" .
  with ex res show ?case by (cases ex) simp_all
qed

text \<open>
  C7. Exclusion filtering is idempotent: filtering the result of \<open>exclude\<close> again with the
  same exclusions file gives the same result, and when the first call throws, so does the
  composition.
\<close>

theorem exclude_idempotent:
  "(case exclude env fs currentDir lines exclusionsFileName of
      Inl e \<Rightarrow> Inl e
    | Inr result \<Rightarrow> exclude env fs currentDir result exclusionsFileName)
   = exclude env fs currentDir lines exclusionsFileName"
  by (auto simp: exclude_def Let_def split: option.splits sum.splits dest: filter_excluded_idem)

theorem exclude_idempotent_witness:
  "exclude sample_env [''root/b/exclude.txt'' \<mapsto> ''tracker''] ''root/b''
     [''||ads.example^'', ''||tracker.example^''] ''exclude.txt'' = Inr [''||ads.example^''] \<and>
   exclude sample_env [''root/b/exclude.txt'' \<mapsto> ''tracker''] ''root/b''
     [''||ads.example^''] ''exclude.txt'' = Inr [''||ads.example^'']"
proof -
  have a: "exclude sample_env [''root/b/exclude.txt'' \<mapsto> ''tracker''] ''root/b''
     [''||ads.example^'', ''||tracker.example^''] ''exclude.txt'' = Inr [''||ads.example^'']"
    by code_simp
  from exclude_idempotent [where env = sample_env and fs = "[''root/b/exclude.txt'' \<mapsto> ''tracker'']"
      and currentDir = "''root/b''" and lines = "[''||ads.example^'', ''||tracker.example^'']"
      and exclusionsFileName = "''exclude.txt''"] a
  show ?thesis by simp
qed

subsection \<open>The compiler and the builder\<close>

lemma compile_lines_append:
  "compile_lines env fs currentDir (xs @ ys) result =
     (case compile_lines env fs currentDir xs result of
        Inl e \<Rightarrow> Inl e
      | Inr r \<Rightarrow> compile_lines env fs currentDir ys r)"
  by (induction xs arbitrary: result) (auto split: sum.splits)

lemma compile_lines_extends:
  "compile_lines env fs currentDir lines result = Inr result' \<Longrightarrow>
   \<exists>more. result' = result @ more"
proof (induction lines arbitrary: result)
  case Nil
  then show ?case by simp
next
  case (Cons line lines)
  show ?case
  proof (cases "startsWith line ''@include ''")
    case True
    with Cons.prems obtain inc where
      "compile_lines env fs currentDir lines (result @ map trim inc) = Inr result'"
      by (auto split: sum.splits)
    from Cons.IH [OF this] show ?thesis by auto
  next
    case False
    with Cons.prems have "compile_lines env fs currentDir lines (result @ [trim line]) = Inr result'"
      by simp
    from Cons.IH [OF this] show ?thesis by auto
  qed
qed

text \<open>
  C8. A template line that holds \<open>@include\<close> after leading white space does not start with
  \<open>@include \<close>, so \<open>compile\<close> does not hand it to \<open>include\<close>: at its place in the list of
  lines the loop adds the trimmed line itself to the result, whatever the environment and the
  files are. \<open>compile\<close> returns what the exclusion filter, the removal of duplicates, the
  validator and the sorter make of the list built that way, in which the trimmed line comes
  right after the lines that the part of the template before it gave.
\<close>

theorem compile_indented_include_not_expanded:
  assumes "line = w # rest" and "isWhiteSpace w" and "includes_str line ''@include''"
  shows "\<not> startsWith line ''@include '' \<and>
         compile_lines env fs currentDir (pre @ line # post) result =
           (case compile_lines env fs currentDir pre result of
              Inl e \<Rightarrow> Inl e
            | Inr r \<Rightarrow> compile_lines env fs currentDir post (r @ [trim line])) \<and>
         (splitLines template = pre @ line # post \<longrightarrow>
            compile env fs currentDir template =
              (case compile_lines env fs currentDir pre [] of
                 Inl e \<Rightarrow> Inl e
               | Inr r \<Rightarrow>
                   (case compile_lines env fs currentDir post (r @ [trim line]) of
                      Inl e \<Rightarrow> Inl e
                    | Inr result0 \<Rightarrow>
                        (case exclude env fs currentDir result0 EXCLUDE_FILE of
                           Inl e \<Rightarrow> Inl e
                         | Inr result1 \<Rightarrow>
                             Inr (sorter_sort env (validator_blacklistDomains env
                                    (validator_validate env
                                       (utils_removeDuplicates env result1)))))))) \<and>
         (\<forall>r result0.
            compile_lines env fs currentDir pre [] = Inr r \<and>
            compile_lines env fs currentDir post (r @ [trim line]) = Inr result0 \<longrightarrow>
            (\<exists>more. result0 = r @ trim line # more))"
proof -
  have "w \<noteq> CHR ''@''" using assms(2) by (auto simp: isWhiteSpace_def)
  then have ns: "\<not> startsWith line ''@include ''"
    using assms(1) by (simp add: startsWith_def)
  then have loop: "compile_lines env fs currentDir (pre @ line # post) res =
           (case compile_lines env fs currentDir pre res of
              Inl e \<Rightarrow> Inl e
            | Inr r \<Rightarrow> compile_lines env fs currentDir post (r @ [trim line]))" for res
    by (simp add: compile_lines_append split: sum.splits)
  have whole: "splitLines template = pre @ line # post \<longrightarrow>
            compile env fs currentDir template =
              (case compile_lines env fs currentDir pre [] of
                 Inl e \<Rightarrow> Inl e
               | Inr r \<Rightarrow>
                   (case compile_lines env fs currentDir post (r @ [trim line]) of
                      Inl e \<Rightarrow> Inl e
                    | Inr result0 \<Rightarrow>
                        (case exclude env fs currentDir result0 EXCLUDE_FILE of
                           Inl e \<Rightarrow> Inl e
                         | Inr result1 \<Rightarrow>
                             Inr (sorter_sort env (validator_blacklistDomains env
                                    (validator_validate env
                                       (utils_removeDuplicates env result1)))))))"
    by (simp add: compile_def loop split: sum.splits)
  have place: "\<exists>more. result0 = r @ trim line # more"
    if "compile_lines env fs currentDir post (r @ [trim line]) = Inr result0" for r result0
    using compile_lines_extends [OF that] by auto
  from ns loop [of result] whole place show ?thesis by blast
qed

theorem compile_indented_include_not_expanded_witness:
  "compile_lines sample_env sample_files ''root/b'' ([] @ '' @include extra.txt'' # []) []
     = Inr [''@include extra.txt''] \<and>
   compile_lines sample_env sample_files ''root/b'' [''@include extra.txt''] []
     = Inr [''||tracker.example^$xmlhttprequest'', ''! comment''] \<and>
   compile sample_env sample_files ''root/b''
     (''||ads.example^'' @ [CHR 0x0A] @ '' @include extra.txt'' @ [CHR 0x0A] @ ''@include extra.txt'')
     = Inr [''||ads.example^'', ''@include extra.txt'',
            ''||tracker.example^$xmlhttprequest'', ''! comment'']"
proof -
  let ?template =
    "''||ads.example^'' @ [CHR 0x0A] @ '' @include extra.txt'' @ [CHR 0x0A] @ ''@include extra.txt''"
  have a: "'' @include extra.txt'' = CHR '' '' # ''@include extra.txt''" by simp
  have b: "isWhiteSpace (CHR '' '')" by code_simp
  have c: "includes_str '' @include extra.txt'' ''@include''" by code_simp
  have d: "trim '' @include extra.txt'' = ''@include extra.txt''" by code_simp
  have e: "compile_lines sample_env sample_files ''root/b'' [''@include extra.txt''] []
     = Inr [''||tracker.example^$xmlhttprequest'', ''! comment'']" by code_simp
  have f: "splitLines ?template = [''||ads.example^''] @ '' @include extra.txt'' # [''@include extra.txt'']"
    by code_simp
  have g: "(case compile_lines sample_env sample_files ''root/b'' [''||ads.example^''] [] of
              Inl e \<Rightarrow> Inl e
            | Inr r \<Rightarrow>
                (case compile_lines sample_env sample_files ''root/b'' [''@include extra.txt'']
                        (r @ [''@include extra.txt'']) of
                   Inl e \<Rightarrow> Inl e
                 | Inr result0 \<Rightarrow>
                     (case exclude sample_env sample_files ''root/b'' result0 EXCLUDE_FILE of
                        Inl e \<Rightarrow> Inl e
                      | Inr result1 \<Rightarrow>
                          Inr (sorter_sort sample_env (validator_blacklistDomains sample_env
                                 (validator_validate sample_env
                                    (utils_removeDuplicates sample_env result1)))))))
           = Inr [''||ads.example^'', ''@include extra.txt'',
                  ''||tracker.example^$xmlhttprequest'', ''! comment'']"
    by code_simp
  note loop = compile_indented_include_not_expanded
    [OF a b c, of sample_env sample_files "''root/b''" "[]" "[]" "[]" ?template]
  note whole = compile_indented_include_not_expanded
    [OF a b c, of sample_env sample_files "''root/b''" "[''||ads.example^'']" "[''@include extra.txt'']"
      "[]" ?template]
  have h: "compile_lines sample_env sample_files ''root/b'' ([] @ '' @include extra.txt'' # []) []
     = Inr [''@include extra.txt'']"
    using loop d by simp
  have i: "compile sample_env sample_files ''root/b'' ?template
     = Inr [''||ads.example^'', ''@include extra.txt'',
            ''||tracker.example^$xmlhttprequest'', ''! comment'']"
    using whole f g by (simp only: d simp_thms)
  from h e i show ?thesis by blast
qed

lemma buildFilter_throw_keeps_files:
  "buildFilter env fs filterDir = (fs', Some e) \<Longrightarrow> fs' = fs"
  by (auto simp: buildFilter_def Let_def split: option.splits sum.splits)

lemma makeHeader_returns:
  "makeHeader env fs metadataFile revision = Inr header \<Longrightarrow>
   \<exists>metadataString. truthy (readFile fs metadataFile) = Some metadataString \<and>
      \<not> isl (JSON_metadata env metadataString)"
  by (auto simp: makeHeader_def split: option.splits sum.splits)

lemma buildFilter_fatal:
  assumes "fatal_condition env fs filterDir"
  shows "\<exists>e. buildFilter env fs filterDir = (fs, Some e)"
proof (cases "truthy (readFile fs (path_join env filterDir TEMPLATE_FILE))")
  case None
  then show ?thesis by (simp add: buildFilter_def)
next
  case (Some template)
  with assms have "makeHeader env fs (path_join env filterDir METADATA_FILE) revision \<noteq> Inr header"
    for revision header
    by (auto simp: fatal_condition_def dest!: makeHeader_returns split: option.splits)
  then show ?thesis
    using Some by (auto simp: buildFilter_def Let_def split: sum.splits)
qed

lemma build_items_append:
  "build_items env fs filtersDir (xs @ ys) =
     (case build_items env fs filtersDir xs of
        (fs1, Some e) \<Rightarrow> (fs1, Some e)
      | (fs1, None) \<Rightarrow> build_items env fs1 filtersDir ys)"
  by (induction xs arbitrary: fs) (auto simp: Let_def split: prod.splits option.splits)

text \<open>
  C5, as stated, fails: \<open>build\<close> catches no exception. In the sample tree the directory \<open>a\<close>
  has no template and comes first; the batch stops there, and \<open>filter.txt\<close> of the directory
  \<open>b\<close> is not written, although building \<open>b\<close> alone succeeds and writes it.
\<close>

theorem build_continues_after_fatal_counterexample:
  "fatal_condition sample_env sample_files ''root/a'' \<and>
   snd (build sample_env sample_files ''root'') = Some (Error ''Invalid template'') \<and>
   fst (build sample_env sample_files ''root'') ''root/b/filter.txt'' = None \<and>
   snd (buildFilter sample_env sample_files ''root/b'') = None \<and>
   fst (buildFilter sample_env sample_files ''root/b'') ''root/b/filter.txt'' \<noteq> None"
  by code_simp

text \<open>
  C5, amended. A fatal condition in the build of one directory stops that build before
  anything is written for it, and the exception leaves the batch: the files are those left
  by the directories built before it, and the directories after it are not built.
\<close>

theorem build_stops_at_fatal_directory:
  assumes "fs_readdirSync env filtersDir = pre @ directory # post"
    and "build_items env fs filtersDir pre = (fs1, None)"
    and "fs_isDirectory env (path_join env filtersDir directory)"
    and "fatal_condition env fs1 (path_join env filtersDir directory)"
  shows "\<exists>e. buildFilter env fs1 (path_join env filtersDir directory) = (fs1, Some e) \<and>
             build env fs filtersDir = (fs1, Some e)"
proof -
  obtain e where e: "buildFilter env fs1 (path_join env filtersDir directory) = (fs1, Some e)"
    using buildFilter_fatal [OF assms(4)] by blast
  then have "build_items env fs1 filtersDir (directory # post) = (fs1, Some e)"
    using assms(3) by (simp add: Let_def)
  then have "build env fs filtersDir = (fs1, Some e)"
    using assms(1,2) by (simp add: build_def build_items_append)
  with e show ?thesis by blast
qed

theorem build_stops_at_fatal_directory_witness:
  "\<exists>e. buildFilter sample_env sample_files ''root/a'' = (sample_files, Some e) \<and>
        build sample_env sample_files ''root'' = (sample_files, Some e)"
proof -
  have a: "fs_readdirSync sample_env ''root'' = [] @ ''a'' # [''b'']"
    by (simp add: sample_env_def)
  have b: "build_items sample_env sample_files ''root'' [] = (sample_files, None)" by simp
  have c: "path_join sample_env ''root'' ''a'' = ''root/a''" by (simp add: sample_env_def)
  have d: "fs_isDirectory sample_env ''root/a''" by (simp add: sample_env_def)
  have e: "fatal_condition sample_env sample_files ''root/a''" by code_simp
  from build_stops_at_fatal_directory [OF a b, unfolded c, OF d e] show ?thesis .
qed

end
